theory Spec2Isabelle
  imports Main "HOL-Library.Word"
begin

section \<open>SmallVector: a sequence container with inline storage and heap spillover\<close>

text \<open>
  The development embeds the class template \<^verbatim>\<open>SmallVector<T, STATIC_AMOUNT>\<close> of
  \<^verbatim>\<open>vec.hpp\<close>. The repository holds several revisions of that header. The embedding
  follows the most complete one (the revision that has \<^verbatim>\<open>calculate_static_size\<close>,
  \<^verbatim>\<open>swap\<close> and \<^verbatim>\<open>get_static_size\<close>); the revision stored as \<^verbatim>\<open>src/vec.hpp\<close> differs from
  it in the default of \<^verbatim>\<open>STATIC_AMOUNT\<close> (the constant 8), in the destructor (empty body), in
  the start of the shift loop of the range \<^verbatim>\<open>erase\<close>, in the count constructor
  (\<^verbatim>\<open>push_back(T())\<close> for \<^verbatim>\<open>emplace_back()\<close>) and in having no \<^verbatim>\<open>swap\<close>. Where a difference
  matters, both revisions are embedded and the one of \<^verbatim>\<open>src/vec.hpp\<close> carries the suffix
  \<^verbatim>\<open>_vec_hpp\<close>.

  Conventions.
  \<^item> \<^verbatim>\<open>size_t\<close> values are natural numbers. An increment cannot overflow in a state the
    program reaches, since every counted element occupies storage; a subtraction that the
    source performs on \<^verbatim>\<open>size_t\<close> is written with its wrap-around (\<open>sub_size\<close>).
  \<^item> An iterator is the index of its slot in the active storage, which is what every
    member function first computes from it (\<^verbatim>\<open>pos - cbegin()\<close>). \<^verbatim>\<open>begin()\<close> and \<^verbatim>\<open>end()\<close>
    form the addresses of the slots 0 and \<^verbatim>\<open>size_\<close> and read nothing: they are the indices
    0 and \<open>sz\<close>.
  \<^item> A slot of the inline buffer either holds a live object (\<open>Some x\<close>) or is raw memory
    (\<open>None\<close>): never constructed, or destructed again.
  \<^item> The template parameter \<^verbatim>\<open>STATIC_AMOUNT\<close> is the argument \<open>N\<close> of every function whose
    source mentions it.
\<close>

subsection \<open>Outcomes of a member function\<close>

text \<open>
  A call either returns, or throws one of the two exceptions the header throws (the object
  is then in the state the exception carries), or fails one of the two \<^verbatim>\<open>assert\<close>s of
  \<^verbatim>\<open>spillover\<close>, or has undefined behaviour (a read of raw memory, an access outside a
  buffer, a call through the empty \<^verbatim>\<open>std::optional\<close>).
\<close>

datatype exn = out_of_range | length_error

datatype 's failure = Throws exn 's | Assertion_failed | Undefined

definition and_then :: "'f + 'a \<Rightarrow> ('a \<Rightarrow> 'f + 'b) \<Rightarrow> 'f + 'b" where
  "and_then r f = (case r of Inl e \<Rightarrow> Inl e | Inr x \<Rightarrow> f x)"

text \<open>
  A counting loop whose bounds do not change while it runs visits a fixed list of indices;
  it stops at the first failure.
\<close>

primrec for_each :: "nat list \<Rightarrow> (nat \<Rightarrow> 's \<Rightarrow> 'f + 's) \<Rightarrow> 's \<Rightarrow> 'f + 's" where
  "for_each [] body s = Inr s"
| "for_each (i # js) body s = and_then (body i s) (for_each js body)"

definition sub_size :: "nat \<Rightarrow> nat \<Rightarrow> nat" where
  "sub_size a b = (if b \<le> a then a - b else a + 2 ^ 64 - b)"

subsection \<open>The heap buffer: \<^verbatim>\<open>std::vector<T>\<close>\<close>

text \<open>
  The standard vector is a list of elements with a capacity. Its growth policy is the
  implementation's; the model doubles a full buffer, and \<^verbatim>\<open>reserve\<close> and
  \<^verbatim>\<open>shrink_to_fit\<close> set the capacity exactly. A change of capacity reallocates: every
  element is move-constructed into the new buffer and destructed in the old one
  (\<open>relocated\<close> counts them).
\<close>

record 'a std_vector =
  elems :: "'a list"
  cap :: nat

definition v_empty :: "'a std_vector" where
  "v_empty = \<lparr>elems = [], cap = 0\<rparr>"

definition v_reserve :: "nat \<Rightarrow> 'a std_vector \<Rightarrow> 'a std_vector" where
  "v_reserve n v = (if cap v < n then v\<lparr>cap := n\<rparr> else v)"

definition v_grow :: "'a std_vector \<Rightarrow> 'a std_vector" where
  "v_grow v = (if length (elems v) < cap v then v else v\<lparr>cap := max 1 (2 * cap v)\<rparr>)"

definition v_push_back :: "'a \<Rightarrow> 'a std_vector \<Rightarrow> 'a std_vector" where
  "v_push_back x v = (v_grow v)\<lparr>elems := elems v @ [x]\<rparr>"

definition v_insert :: "nat \<Rightarrow> 'a \<Rightarrow> 'a std_vector \<Rightarrow> 'a std_vector" where
  "v_insert idx x v = (v_grow v)\<lparr>elems := take idx (elems v) @ x # drop idx (elems v)\<rparr>"

definition v_erase_range :: "nat \<Rightarrow> nat \<Rightarrow> 'a std_vector \<Rightarrow> 'a std_vector" where
  "v_erase_range first_idx last_idx v =
     v\<lparr>elems := take first_idx (elems v) @ drop last_idx (elems v)\<rparr>"

definition v_shrink_to_fit :: "'a std_vector \<Rightarrow> 'a std_vector" where
  "v_shrink_to_fit v = v\<lparr>cap := length (elems v)\<rparr>"

definition relocated :: "'a std_vector \<Rightarrow> 'a std_vector \<Rightarrow> nat" where
  "relocated v v' = (if cap v' = cap v then 0 else length (elems v))"

subsection \<open>The container\<close>

text \<open>
  \<^verbatim>\<open>
  alignas(alignof(T)) std::byte arr_[STATIC_AMOUNT * sizeof(T)];
  std::optional<VecT> vec_;
  size_t size_;
  \<close>
  The three data members are the fields \<open>arr\<close>, \<open>vec\<close> and \<open>sz\<close>. Two further fields count
  what an element type that counts in every constructor and in its destructor would record
  of the calls the container's code makes: \<open>constructed\<close> counts the constructor calls
  (placement \<^verbatim>\<open>new\<close> into a slot, an element the vector constructs, a temporary the code
  creates; default, copy or move construction alike), \<open>destructed\<close> the destructor calls.
  The arguments a caller passes are the caller's objects and are not counted.
\<close>

record 'a small_vector =
  arr :: "'a option list"
  vec :: "'a std_vector option"
  sz :: nat
  constructed :: nat
  destructed :: nat

type_synonym 'a outcome = "'a small_vector failure + 'a small_vector"

text \<open>
  \<^verbatim>\<open>T &get_element(size_t i) noexcept { return *get_element_ptr(i); }\<close>, read as a value;
  placement \<^verbatim>\<open>new (get_element_ptr(i)) T(x)\<close>; and \<^verbatim>\<open>get_element_ptr(i)->~T()\<close>.
\<close>

definition get_element :: "'a small_vector \<Rightarrow> nat \<Rightarrow> 'a small_vector failure + 'a" where
  "get_element s i =
     (if i < length (arr s)
      then (case arr s ! i of Some x \<Rightarrow> Inr x | None \<Rightarrow> Inl Undefined)
      else Inl Undefined)"

definition construct_at :: "nat \<Rightarrow> 'a \<Rightarrow> 'a small_vector \<Rightarrow> 'a outcome" where
  "construct_at i x s =
     (if i < length (arr s)
      then Inr (s\<lparr>arr := (arr s)[i := Some x], constructed := constructed s + 1\<rparr>)
      else Inl Undefined)"

definition destroy_at :: "nat \<Rightarrow> 'a small_vector \<Rightarrow> 'a outcome" where
  "destroy_at i s =
     (if i < length (arr s) \<and> arr s ! i \<noteq> None
      then Inr (s\<lparr>arr := (arr s)[i := None], destructed := destructed s + 1\<rparr>)
      else Inl Undefined)"

text \<open>
  \<^verbatim>\<open>
  T *src = get_element_ptr(i);  T *dst = get_element_ptr(j);
  new (dst) T(std::move(*src));
  src->~T();
  \<close>
\<close>

definition move_slot :: "nat \<Rightarrow> nat \<Rightarrow> 'a small_vector \<Rightarrow> 'a outcome" where
  "move_slot src dst s =
     and_then (get_element s src) (\<lambda>x. and_then (construct_at dst x s) (destroy_at src))"

text \<open>
  Calls through \<^verbatim>\<open>vec_->\<close>; the empty optional has no vector to call. An allocation is
  taken to succeed and a request to be within the vector's \<^verbatim>\<open>max_size()\<close>; the versions
  that carry that limit follow in the subsection on the limit of the heap buffer.
\<close>

definition vec_reserve :: "nat \<Rightarrow> 'a small_vector \<Rightarrow> 'a outcome" where
  "vec_reserve n s =
     (case vec s of
        None \<Rightarrow> Inl Undefined
      | Some v \<Rightarrow>
          Inr (s\<lparr>vec := Some (v_reserve n v),
                constructed := constructed s + relocated v (v_reserve n v),
                destructed := destructed s + relocated v (v_reserve n v)\<rparr>))"

definition vec_push_back :: "'a \<Rightarrow> 'a small_vector \<Rightarrow> 'a outcome" where
  "vec_push_back x s =
     (case vec s of
        None \<Rightarrow> Inl Undefined
      | Some v \<Rightarrow>
          Inr (s\<lparr>vec := Some (v_push_back x v),
                constructed := constructed s + relocated v (v_grow v) + 1,
                destructed := destructed s + relocated v (v_grow v)\<rparr>))"

definition vec_insert :: "nat \<Rightarrow> 'a \<Rightarrow> 'a small_vector \<Rightarrow> 'a outcome" where
  "vec_insert idx x s =
     (case vec s of
        None \<Rightarrow> Inl Undefined
      | Some v \<Rightarrow>
          if idx \<le> length (elems v)
          then Inr (s\<lparr>vec := Some (v_insert idx x v),
                     constructed := constructed s + relocated v (v_grow v) + 1,
                     destructed := destructed s + relocated v (v_grow v)\<rparr>)
          else Inl Undefined)"

definition vec_erase :: "nat \<Rightarrow> 'a small_vector \<Rightarrow> 'a outcome" where
  "vec_erase idx s =
     (case vec s of
        None \<Rightarrow> Inl Undefined
      | Some v \<Rightarrow>
          if idx < length (elems v)
          then Inr (s\<lparr>vec := Some (v_erase_range idx (Suc idx) v),
                     destructed := destructed s + 1\<rparr>)
          else Inl Undefined)"

definition vec_erase_range :: "nat \<Rightarrow> nat \<Rightarrow> 'a small_vector \<Rightarrow> 'a outcome" where
  "vec_erase_range first_idx last_idx s =
     (case vec s of
        None \<Rightarrow> Inl Undefined
      | Some v \<Rightarrow>
          if first_idx \<le> last_idx \<and> last_idx \<le> length (elems v)
          then Inr (s\<lparr>vec := Some (v_erase_range first_idx last_idx v),
                     destructed := destructed s + (last_idx - first_idx)\<rparr>)
          else Inl Undefined)"

definition vec_clear :: "'a small_vector \<Rightarrow> 'a outcome" where
  "vec_clear s =
     (case vec s of
        None \<Rightarrow> Inl Undefined
      | Some v \<Rightarrow>
          Inr (s\<lparr>vec := Some (v\<lparr>elems := []\<rparr>),
                destructed := destructed s + length (elems v)\<rparr>))"

definition vec_shrink_to_fit :: "'a small_vector \<Rightarrow> 'a outcome" where
  "vec_shrink_to_fit s =
     (case vec s of
        None \<Rightarrow> Inl Undefined
      | Some v \<Rightarrow>
          Inr (s\<lparr>vec := Some (v_shrink_to_fit v),
                constructed := constructed s + relocated v (v_shrink_to_fit v),
                destructed := destructed s + relocated v (v_shrink_to_fit v)\<rparr>))"

subsection \<open>Storage mode and spillover\<close>

text \<open>
  \<^verbatim>\<open>
  bool is_vector() const noexcept { return vec_.has_value(); }
  bool is_array() const noexcept { return !is_vector(); }
  \<close>
\<close>

definition is_vector :: "'a small_vector \<Rightarrow> bool" where
  "is_vector s = (vec s \<noteq> None)"

definition is_array :: "'a small_vector \<Rightarrow> bool" where
  "is_array s = (\<not> is_vector s)"

text \<open>
  \<^verbatim>\<open>
  void spillover(size_t capacity) {
    assert(!vec_);
    assert(capacity >= STATIC_AMOUNT);
    vec_ = std::make_optional<VecT>();
    vec_->reserve(capacity);
    for (size_t i = 0; i < size_ && i < STATIC_AMOUNT; ++i) {
      vec_->push_back(std::move(get_element(i)));
      get_element_ptr(i)->~T();
    }
  }
  \<close>
  \<open>spillover_slots\<close> is the loop header: the indices the loop visits. \<open>spill_slot\<close> is the
  loop body; slot \<open>i\<close> is the only slot of the inline buffer it reads or destructs.
\<close>

definition spillover_slots :: "nat \<Rightarrow> 'a small_vector \<Rightarrow> nat list" where
  "spillover_slots N s = [0 ..< min (sz s) N]"

definition spill_slot :: "nat \<Rightarrow> 'a small_vector \<Rightarrow> 'a outcome" where
  "spill_slot i s =
     and_then (get_element s i) (\<lambda>x. and_then (vec_push_back x s) (destroy_at i))"

definition spillover :: "nat \<Rightarrow> nat \<Rightarrow> 'a small_vector \<Rightarrow> 'a outcome" where
  "spillover N capacity s =
     (if vec s \<noteq> None then Inl Assertion_failed
      else if capacity < N then Inl Assertion_failed
      else and_then (vec_reserve capacity (s\<lparr>vec := Some v_empty\<rparr>))
             (for_each (spillover_slots N s) spill_slot))"

subsection \<open>Construction of the empty container, element access\<close>

text \<open>\<^verbatim>\<open>SmallVector() : size_(0) {};\<close> The inline buffer is raw memory.\<close>

definition SmallVector :: "nat \<Rightarrow> 'a small_vector" where
  "SmallVector N =
     \<lparr>arr = replicate N None, vec = None, sz = 0, constructed = 0, destructed = 0\<rparr>"

text \<open>
  \<^verbatim>\<open>
  T &operator[](size_t i) { return vec_ ? (*vec_)[i] : get_element(i); }
  T &at(size_t i) {
    if (i >= size_) {
      throw std::out_of_range("Out of range access");
    } else {
      return (*this)[i];
    }
  }
  \<close>
  \<^verbatim>\<open>
  T &front() { return (*this)[0]; }
  T &back() { return (*this)[size_ - 1]; }
  \<close>
  All are read as the value of the element they refer to.
\<close>

definition index :: "'a small_vector \<Rightarrow> nat \<Rightarrow> 'a small_vector failure + 'a" where
  "index s i =
     (case vec s of
        Some v \<Rightarrow> if i < length (elems v) then Inr (elems v ! i) else Inl Undefined
      | None \<Rightarrow> get_element s i)"

definition at :: "'a small_vector \<Rightarrow> nat \<Rightarrow> 'a small_vector failure + 'a" where
  "at s i = (if i \<ge> sz s then Inl (Throws out_of_range s) else index s i)"

definition front_sv :: "'a small_vector \<Rightarrow> 'a small_vector failure + 'a" where
  "front_sv s = index s 0"

definition back_sv :: "'a small_vector \<Rightarrow> 'a small_vector failure + 'a" where
  "back_sv s = index s (sub_size (sz s) 1)"

subsection \<open>Capacity\<close>

text \<open>
  \<^verbatim>\<open>
  void reserve(size_t size) {
    if (size <= STATIC_AMOUNT) {
      return;
    } else {
      if (!vec_) {
        spillover(size);
      } else {
        vec_->reserve(size);
      }
    }
  }
  size_t capacity() const noexcept {
    if (!vec_) { return STATIC_AMOUNT; } else { return vec_->capacity(); }
  }
  void shrink_to_fit() { if (vec_) vec_->shrink_to_fit(); }
  \<close>
\<close>

definition reserve :: "nat \<Rightarrow> nat \<Rightarrow> 'a small_vector \<Rightarrow> 'a outcome" where
  "reserve N n s =
     (if n \<le> N then Inr s
      else if vec s = None then spillover N n s
      else vec_reserve n s)"

definition capacity :: "nat \<Rightarrow> 'a small_vector \<Rightarrow> nat" where
  "capacity N s = (case vec s of None \<Rightarrow> N | Some v \<Rightarrow> cap v)"

definition shrink_to_fit :: "'a small_vector \<Rightarrow> 'a outcome" where
  "shrink_to_fit s = (if vec s \<noteq> None then vec_shrink_to_fit s else Inr s)"

subsection \<open>Modifiers\<close>

text \<open>
  \<^verbatim>\<open>
  void clear() {
    if (vec_) {
      vec_->clear();
    } else {
      for (size_t i = size_; i > 0; --i) {
        get_element_ptr(i - 1)->~T();
      }
    }
    size_ = 0;
  }
  \<close>
\<close>

definition clear :: "'a small_vector \<Rightarrow> 'a outcome" where
  "clear s =
     and_then (if vec s \<noteq> None then vec_clear s
               else for_each (rev [0 ..< sz s]) destroy_at s)
       (\<lambda>s1. Inr (s1\<lparr>sz := 0\<rparr>))"

text \<open>
  \<^verbatim>\<open>
  void push_back(T &&val) {
    if (!vec_) {
      if (size_ >= STATIC_AMOUNT) {
        spillover(size_ + 1);
        vec_->push_back(std::forward<T>(val));
      } else {
        new (get_element_ptr(size_)) T(std::forward<T>(val));
      }
    } else {
      vec_->push_back(std::forward<T>(val));
    }
    size_++;
  }
  \<close>
  The overload taking \<^verbatim>\<open>const T &\<close> has the same body with a copy in place of the move.
  \<^verbatim>\<open>emplace_back(Args &&...args)\<close> has the same body again, constructing the element from
  \<^verbatim>\<open>args\<close> in place; its argument in the model is the value so constructed.
\<close>

definition push_back :: "nat \<Rightarrow> 'a \<Rightarrow> 'a small_vector \<Rightarrow> 'a outcome" where
  "push_back N val s =
     and_then
       (if vec s = None
        then (if sz s \<ge> N
              then and_then (spillover N (sz s + 1) s) (vec_push_back val)
              else construct_at (sz s) val s)
        else vec_push_back val s)
       (\<lambda>s1. Inr (s1\<lparr>sz := sz s1 + 1\<rparr>))"

definition emplace_back :: "nat \<Rightarrow> 'a \<Rightarrow> 'a small_vector \<Rightarrow> 'a outcome" where
  "emplace_back N val s =
     and_then
       (if vec s = None
        then (if sz s \<ge> N
              then and_then (spillover N (sz s + 1) s) (vec_push_back val)
              else construct_at (sz s) val s)
        else vec_push_back val s)
       (\<lambda>s1. Inr (s1\<lparr>sz := sz s1 + 1\<rparr>))"

text \<open>
  \<^verbatim>\<open>
  constexpr iterator insert(const_iterator pos, T &&value) {
    const size_t idx = static_cast<size_t>(pos - cbegin());
    size_++;
    if (!vec_ && size_ <= STATIC_AMOUNT) {
      for (size_t i = size_ - 1; i > idx; --i) {
        T *src = get_element_ptr(i - 1);
        T *dst = get_element_ptr(i);
        new (dst) T(std::move(*src));
        src->~T();
      }
      T *dst = get_element_ptr(idx);
      new (dst) T(std::forward<T>(value));
      return dst;
    }
    if (!vec_) {
      spillover(size_);
    }
    auto it = vec_->insert(vec_->begin() + idx, std::forward<T>(value));
    return &(*it);
  }
  \<close>
  \<^verbatim>\<open>insert(pos, const T &value)\<close> calls this one with a copy of \<^verbatim>\<open>value\<close>, and \<^verbatim>\<open>emplace\<close> has
  the same body, constructing the element from its arguments. The descending loop visits
  \<open>size_ - 1, ..., idx + 1\<close>. The result pairs the container with the returned iterator.
  A temporary that \<^verbatim>\<open>vec_->emplace\<close> builds and destructs inside the library is not
  counted.
\<close>

definition insert_sv ::
  "nat \<Rightarrow> nat \<Rightarrow> 'a \<Rightarrow> 'a small_vector \<Rightarrow> 'a small_vector failure + 'a small_vector \<times> nat" where
  "insert_sv N idx val s0 =
     (let s = s0\<lparr>sz := sz s0 + 1\<rparr> in
      if vec s = None \<and> sz s \<le> N
      then and_then (for_each (rev [idx + 1 ..< sz s]) (\<lambda>i. move_slot (i - 1) i) s)
             (\<lambda>s1. and_then (construct_at idx val s1) (\<lambda>s2. Inr (s2, idx)))
      else and_then (if vec s = None then spillover N (sz s) s else Inr s)
             (\<lambda>s1. and_then (vec_insert idx val s1) (\<lambda>s2. Inr (s2, idx))))"

definition emplace ::
  "nat \<Rightarrow> nat \<Rightarrow> 'a \<Rightarrow> 'a small_vector \<Rightarrow> 'a small_vector failure + 'a small_vector \<times> nat" where
  "emplace N idx val s0 =
     (let s = s0\<lparr>sz := sz s0 + 1\<rparr> in
      if vec s = None \<and> sz s \<le> N
      then and_then (for_each (rev [idx + 1 ..< sz s]) (\<lambda>i. move_slot (i - 1) i) s)
             (\<lambda>s1. and_then (construct_at idx val s1) (\<lambda>s2. Inr (s2, idx)))
      else and_then (if vec s = None then spillover N (sz s) s else Inr s)
             (\<lambda>s1. and_then (vec_insert idx val s1) (\<lambda>s2. Inr (s2, idx))))"

text \<open>
  \<^verbatim>\<open>
  constexpr iterator erase(const_iterator pos) {
    const size_t idx = static_cast<size_t>(pos - cbegin());
    if (vec_) {
      auto it = vec_->erase(vec_->begin() + idx);
      size_--;
      return &(*it);
    } else {
      T *val = get_element_ptr(idx);
      val->~T();
      for (size_t i = idx + 1; i < size_; ++i) {
        T *src = get_element_ptr(i);
        T *dst = get_element_ptr(i - 1);
        new (dst) T(std::move(*src));
        src->~T();
      }
      size_--;
      if (idx == size_) {
        return end();
      } else {
        return get_element_ptr(idx);
      }
    }
  }
  \<close>
\<close>

definition erase ::
  "nat \<Rightarrow> 'a small_vector \<Rightarrow> 'a small_vector failure + 'a small_vector \<times> nat" where
  "erase idx s =
     (if vec s \<noteq> None
      then and_then (vec_erase idx s) (\<lambda>s1. Inr (s1\<lparr>sz := sub_size (sz s1) 1\<rparr>, idx))
      else and_then (destroy_at idx s)
             (\<lambda>s1. and_then (for_each [idx + 1 ..< sz s1] (\<lambda>i. move_slot i (i - 1)) s1)
                (\<lambda>s2. let s3 = s2\<lparr>sz := sub_size (sz s2) 1\<rparr> in
                   if idx = sz s3 then Inr (s3, sz s3) else Inr (s3, idx))))"

text \<open>
  The range overload, in the revision with \<^verbatim>\<open>calculate_static_size\<close>:
  \<^verbatim>\<open>
  // Removes values from the `first` to `last` iterator (but not inclusive of
  // `last`) Returns the iterator to the first value after the last removed
  // value
  constexpr iterator erase(const_iterator first, const_iterator last) {
    const size_t first_idx = static_cast<size_t>(first - cbegin());
    const size_t last_idx = static_cast<size_t>(last - cbegin());
    if (vec_) {
      auto it =
          vec_->erase(vec_->begin() + first_idx, vec_->begin() + last_idx);
      size_ -= (last_idx - first_idx);
      return &(*it);
    } else {
      const size_t diff = last_idx - first_idx;
      for (size_t i = first_idx; i < last_idx; i++) {
        T *val = get_arr_element_ptr(i);
        val->~T();
      }
      for (size_t i = last_idx; i < size_; ++i) {
        T *src = get_arr_element_ptr(i);
        T *dst = get_arr_element_ptr(i - diff);
        new (dst) T(std::move(*src));
        src->~T();
      }
      size_ -= (last_idx - first_idx);
      if (last_idx == size_) {
        return end();
      } else {
        return get_arr_element_ptr(last_idx);
      }
    }
  }
  \<close>
  \<^verbatim>\<open>std::vector::erase(first, last)\<close> returns the iterator following the last removed
  element, which is the slot \<open>first_idx\<close> of the buffer after the call.
\<close>

definition erase_range ::
  "nat \<Rightarrow> nat \<Rightarrow> 'a small_vector \<Rightarrow> 'a small_vector failure + 'a small_vector \<times> nat" where
  "erase_range first_idx last_idx s =
     (if vec s \<noteq> None
      then and_then (vec_erase_range first_idx last_idx s)
             (\<lambda>s1. Inr (s1\<lparr>sz := sub_size (sz s1) (sub_size last_idx first_idx)\<rparr>, first_idx))
      else
        (let diff = sub_size last_idx first_idx in
         and_then (for_each [first_idx ..< last_idx] destroy_at s)
           (\<lambda>s1. and_then (for_each [last_idx ..< sz s1] (\<lambda>i. move_slot i (sub_size i diff)) s1)
              (\<lambda>s2. let s3 = s2\<lparr>sz := sub_size (sz s2) (sub_size last_idx first_idx)\<rparr> in
                 if last_idx = sz s3 then Inr (s3, sz s3) else Inr (s3, last_idx)))))"

text \<open>
  The same overload in \<^verbatim>\<open>src/vec.hpp\<close>; only the start of the second loop differs:
  \<^verbatim>\<open>for (size_t i = last_idx + 1; i < size_; ++i) {\<close>
\<close>

definition erase_range_vec_hpp ::
  "nat \<Rightarrow> nat \<Rightarrow> 'a small_vector \<Rightarrow> 'a small_vector failure + 'a small_vector \<times> nat" where
  "erase_range_vec_hpp first_idx last_idx s =
     (if vec s \<noteq> None
      then and_then (vec_erase_range first_idx last_idx s)
             (\<lambda>s1. Inr (s1\<lparr>sz := sub_size (sz s1) (sub_size last_idx first_idx)\<rparr>, first_idx))
      else
        (let diff = sub_size last_idx first_idx in
         and_then (for_each [first_idx ..< last_idx] destroy_at s)
           (\<lambda>s1. and_then
              (for_each [last_idx + 1 ..< sz s1] (\<lambda>i. move_slot i (sub_size i diff)) s1)
              (\<lambda>s2. let s3 = s2\<lparr>sz := sub_size (sz s2) (sub_size last_idx first_idx)\<rparr> in
                 if last_idx = sz s3 then Inr (s3, sz s3) else Inr (s3, last_idx)))))"

text \<open>\<^verbatim>\<open>constexpr void pop_back() { erase(cend() - 1); }\<close>\<close>

definition pop_back :: "'a small_vector \<Rightarrow> 'a outcome" where
  "pop_back s = and_then (erase (sub_size (sz s) 1) s) (\<lambda>r. Inr (fst r))"

text \<open>
  \<^verbatim>\<open>
  static size_t max_size() noexcept { return std::numeric_limits<T>::max(); }

  constexpr void resize(size_t count, const T &value) {
    if (count == size_)
      return;
    if (count > max_size())
      throw std::length_error("Requested resize above maximum size");

    if (size_ > count) {
      erase(begin() + count, end());
    } else {
      reserve(count);
      for (size_t i = size_; i < count; ++i) {
        push_back(value);
      }
    }
  }
  \<close>
  \<^verbatim>\<open>resize(size_t count)\<close> has the same body with \<^verbatim>\<open>emplace_back()\<close> in the loop; its
  argument \<open>dflt\<close> is the value-initialised element. \<^verbatim>\<open>std::numeric_limits<T>::max()\<close> belongs
  to the element type and is the argument \<open>max_size\<close>.
\<close>

definition resize_value :: "nat \<Rightarrow> nat \<Rightarrow> nat \<Rightarrow> 'a \<Rightarrow> 'a small_vector \<Rightarrow> 'a outcome" where
  "resize_value N max_size count val s =
     (if count = sz s then Inr s
      else if count > max_size then Inl (Throws length_error s)
      else if sz s > count
      then and_then (erase_range count (sz s) s) (\<lambda>r. Inr (fst r))
      else and_then (reserve N count s)
             (\<lambda>s1. for_each [sz s1 ..< count] (\<lambda>i. push_back N val) s1))"

definition resize :: "nat \<Rightarrow> nat \<Rightarrow> nat \<Rightarrow> 'a \<Rightarrow> 'a small_vector \<Rightarrow> 'a outcome" where
  "resize N max_size count dflt s =
     (if count = sz s then Inr s
      else if count > max_size then Inl (Throws length_error s)
      else if sz s > count
      then and_then (erase_range count (sz s) s) (\<lambda>r. Inr (fst r))
      else and_then (reserve N count s)
             (\<lambda>s1. for_each [sz s1 ..< count] (\<lambda>i. emplace_back N dflt) s1))"

subsection \<open>Constructors and destructor\<close>

text \<open>
  \<^verbatim>\<open>
  constexpr explicit SmallVector(size_t count) : size_(0) {
    reserve(count);
    for (size_t i = 0; i < count; ++i) { emplace_back(); }
  }
  constexpr SmallVector(size_t count, const T &value) : size_(0) {
    reserve(count);
    for (size_t i = 0; i < count; ++i) { push_back(value); }
  }
  constexpr SmallVector(std::initializer_list<T> init) : size_(0) {
    reserve(init.size());
    std::copy(init.begin(), init.end(), std::back_inserter(*this));
  }
  \<close>
  In \<^verbatim>\<open>src/vec.hpp\<close> the loop of the first one is
  \<^verbatim>\<open>for (size_t i = 0; i < count; ++i) { push_back(T()); }\<close>: each step constructs the
  temporary \<^verbatim>\<open>T()\<close>, moves it into the container and destructs it at the end of the
  statement.
\<close>

definition SmallVector_count :: "nat \<Rightarrow> nat \<Rightarrow> 'a \<Rightarrow> 'a outcome" where
  "SmallVector_count N count dflt =
     and_then (reserve N count (SmallVector N))
       (for_each [0 ..< count] (\<lambda>i. emplace_back N dflt))"

definition push_back_temporary :: "nat \<Rightarrow> 'a \<Rightarrow> 'a small_vector \<Rightarrow> 'a outcome" where
  "push_back_temporary N dflt s =
     and_then (push_back N dflt (s\<lparr>constructed := constructed s + 1\<rparr>))
       (\<lambda>s1. Inr (s1\<lparr>destructed := destructed s1 + 1\<rparr>))"

definition SmallVector_count_vec_hpp :: "nat \<Rightarrow> nat \<Rightarrow> 'a \<Rightarrow> 'a outcome" where
  "SmallVector_count_vec_hpp N count dflt =
     and_then (reserve N count (SmallVector N))
       (for_each [0 ..< count] (\<lambda>i. push_back_temporary N dflt))"


primrec push_back_all :: "nat \<Rightarrow> 'a list \<Rightarrow> 'a small_vector \<Rightarrow> 'a outcome" where
  "push_back_all N [] s = Inr s"
| "push_back_all N (x # xs) s = and_then (push_back N x s) (push_back_all N xs)"

definition SmallVector_init :: "nat \<Rightarrow> 'a list \<Rightarrow> 'a outcome" where
  "SmallVector_init N init =
     and_then (reserve N (length init) (SmallVector N)) (push_back_all N init)"

text \<open>
  After the body of a destructor the members are destroyed: \<^verbatim>\<open>vec_\<close>, with the elements the
  vector still holds, and the bytes of \<^verbatim>\<open>arr_\<close>, which have no destructor. The two revisions:
  \<^verbatim>\<open>constexpr ~SmallVector() { clear(); };\<close> and, in \<^verbatim>\<open>src/vec.hpp\<close>, \<^verbatim>\<open>~SmallVector() {};\<close>
\<close>

definition destroy_members :: "'a small_vector \<Rightarrow> 'a small_vector" where
  "destroy_members s =
     (case vec s of
        None \<Rightarrow> s
      | Some v \<Rightarrow> s\<lparr>vec := None, destructed := destructed s + length (elems v)\<rparr>)"

definition destructor :: "'a small_vector \<Rightarrow> 'a outcome" where
  "destructor s = and_then (clear s) (\<lambda>s1. Inr (destroy_members s1))"

definition destructor_vec_hpp :: "'a small_vector \<Rightarrow> 'a outcome" where
  "destructor_vec_hpp s = Inr (destroy_members s)"

text \<open>The objects alive in the storage of a container.\<close>

definition live_objects :: "'a small_vector \<Rightarrow> nat" where
  "live_objects s =
     length (filter (\<lambda>x. x \<noteq> None) (arr s))
       + (case vec s of None \<Rightarrow> 0 | Some v \<Rightarrow> length (elems v))"

subsection \<open>Comparison\<close>

text \<open>
  \<^verbatim>\<open>
  bool operator==(const SmallVector<T> &other) const {
    if (size_ != other.size())
      return false;
    return std::equal(begin(), end(), other.begin());
  }
  bool operator!=(const SmallVector<T> &other) const { return !(*this == other); }
  \<close>
  \<^verbatim>\<open>std::equal\<close> reads both ranges position by position and stops at the first difference.
\<close>

primrec std_equal ::
  "nat list \<Rightarrow> 'a small_vector \<Rightarrow> 'a small_vector \<Rightarrow> 'a small_vector failure + bool" where
  "std_equal [] a b = Inr True"
| "std_equal (i # js) a b =
     and_then (index a i)
       (\<lambda>x. and_then (index b i) (\<lambda>y. if x = y then std_equal js a b else Inr False))"

definition eq :: "'a small_vector \<Rightarrow> 'a small_vector \<Rightarrow> 'a small_vector failure + bool" where
  "eq s other = (if sz s \<noteq> sz other then Inr False else std_equal [0 ..< sz s] s other)"

definition neq :: "'a small_vector \<Rightarrow> 'a small_vector \<Rightarrow> 'a small_vector failure + bool" where
  "neq s other = and_then (eq s other) (\<lambda>b. Inr (\<not> b))"

subsection \<open>Operations on two containers\<close>

text \<open>
  \<^verbatim>\<open>append\<close> and \<^verbatim>\<open>swap\<close> take a reference to a second container, which may be the
  container itself. Objects therefore live in a store, at addresses; \<^verbatim>\<open>this\<close> and
  \<^verbatim>\<open>&other\<close> are addresses, and every read and write goes through the store.
\<close>

type_synonym 'a store = "nat \<Rightarrow> 'a small_vector"

definition on_object ::
  "nat \<Rightarrow> ('a small_vector \<Rightarrow> 'a outcome) \<Rightarrow> 'a store \<Rightarrow> 'a store failure + 'a store" where
  "on_object p f st =
     (case f (st p) of
        Inr s \<Rightarrow> Inr (st(p := s))
      | Inl (Throws e s) \<Rightarrow> Inl (Throws e (st(p := s)))
      | Inl Assertion_failed \<Rightarrow> Inl Assertion_failed
      | Inl Undefined \<Rightarrow> Inl Undefined)"

definition read_object :: "nat \<Rightarrow> nat \<Rightarrow> 'a store \<Rightarrow> 'a store failure + 'a" where
  "read_object p i st = (case index (st p) i of Inr x \<Rightarrow> Inr x | Inl e \<Rightarrow> Inl Undefined)"

text \<open>
  \<^verbatim>\<open>std::copy(other.begin(), other.end(), std::back_inserter(*this))\<close> and the same call of
  \<^verbatim>\<open>std::move\<close>: the element at each position of \<^verbatim>\<open>other\<close>, from \<^verbatim>\<open>begin()\<close> up to the
  \<^verbatim>\<open>end()\<close> taken before the first step, is read and handed to \<^verbatim>\<open>push_back\<close> of \<^verbatim>\<open>*this\<close>.
  (A moved-from element stays alive in \<^verbatim>\<open>other\<close> until it is destructed; the model keeps its
  value.)
\<close>

definition copy_element :: "nat \<Rightarrow> nat \<Rightarrow> nat \<Rightarrow> nat \<Rightarrow> 'a store \<Rightarrow> 'a store failure + 'a store" where
  "copy_element N this other i st =
     and_then (read_object other i st) (\<lambda>x. on_object this (push_back N x) st)"

text \<open>
  \<^verbatim>\<open>
  // Appends `other` to the end of this SmallVector, clearing `other` after
  void append(SmallVector<T> &&other) {
    if (this == &other)
      return;
    const size_t other_size = other.size();
    if (other_size == 0)
      return;
    reserve(size_ + other_size);
    std::move(other.begin(), other.end(), std::back_inserter(*this));
    other.clear();
  }
  // Appends `other` to the end of this SmallVector
  void append(const SmallVector<T> &other) {
    const size_t other_size = other.size();
    if (other_size == 0)
      return;
    reserve(size_ + other_size);
    std::copy(other.begin(), other.end(), std::back_inserter(*this));
  }
  \<close>
\<close>

definition append_move :: "nat \<Rightarrow> nat \<Rightarrow> nat \<Rightarrow> 'a store \<Rightarrow> 'a store failure + 'a store" where
  "append_move N this other st =
     (if this = other then Inr st
      else if sz (st other) = 0 then Inr st
      else and_then (on_object this (reserve N (sz (st this) + sz (st other))) st)
        (\<lambda>st1. and_then (for_each [0 ..< sz (st1 other)] (copy_element N this other) st1)
           (on_object other clear)))"

definition append_copy :: "nat \<Rightarrow> nat \<Rightarrow> nat \<Rightarrow> 'a store \<Rightarrow> 'a store failure + 'a store" where
  "append_copy N this other st =
     (if sz (st other) = 0 then Inr st
      else and_then (on_object this (reserve N (sz (st this) + sz (st other))) st)
        (\<lambda>st1. for_each [0 ..< sz (st1 other)] (copy_element N this other) st1))"

text \<open>
  \<^verbatim>\<open>
  constexpr void swap(SmallVector &other) noexcept {
    std::swap(arr_, other.arr_);
    std::swap(vec_, other.vec_);
    std::swap(size_, other.size_);
  }
  \<close>
\<close>

definition swap_sv :: "nat \<Rightarrow> nat \<Rightarrow> 'a store \<Rightarrow> 'a store" where
  "swap_sv this other st =
     (let a = st this; b = st other in
      st(this := a\<lparr>arr := arr b, vec := vec b, sz := sz b\<rparr>,
         other := b\<lparr>arr := arr a, vec := vec a, sz := sz a\<rparr>))"

subsection \<open>The default inline capacity\<close>

text \<open>
  \<^verbatim>\<open>
  constexpr size_t CACHE_LINE_SIZE_BYTES = 64;
  constexpr size_t MAX_SIZE_BYTES = 10240; // 10 KB
  constexpr size_t FALLBACK_SIZE = 8;

  consteval size_t calculate_static_size(const size_t size_of_t) {
    if (size_of_t <= CACHE_LINE_SIZE_BYTES) {
      return CACHE_LINE_SIZE_BYTES / size_of_t;
    }
    if (FALLBACK_SIZE * size_of_t <= MAX_SIZE_BYTES) {
      return FALLBACK_SIZE;
    } else {
      const size_t divided_size = MAX_SIZE_BYTES / size_of_t;
      return (divided_size == 0) ? 1 : divided_size;
    }
  }

  template <typename T, size_t STATIC_AMOUNT = calculate_static_size(sizeof(T))>
  class SmallVector {
  \<close>
  The function computes on 64-bit \<^verbatim>\<open>size_t\<close> values, where the product wraps around. A
  division by zero is no constant expression: the call does not compile (\<open>None\<close>).
\<close>

definition CACHE_LINE_SIZE_BYTES :: "64 word" where
  "CACHE_LINE_SIZE_BYTES = 64"

definition MAX_SIZE_BYTES :: "64 word" where
  "MAX_SIZE_BYTES = 10240"

definition FALLBACK_SIZE :: "64 word" where
  "FALLBACK_SIZE = 8"

definition calculate_static_size :: "64 word \<Rightarrow> 64 word option" where
  "calculate_static_size size_of_t =
     (if size_of_t = 0 then None
      else if size_of_t \<le> CACHE_LINE_SIZE_BYTES then Some (CACHE_LINE_SIZE_BYTES div size_of_t)
      else if FALLBACK_SIZE * size_of_t \<le> MAX_SIZE_BYTES then Some FALLBACK_SIZE
      else (let divided_size = MAX_SIZE_BYTES div size_of_t
            in Some (if divided_size = 0 then 1 else divided_size)))"

text \<open>
  The default of the template parameter, as a function of \<^verbatim>\<open>sizeof(T)\<close>: in the revision
  quoted above it is \<^verbatim>\<open>calculate_static_size(sizeof(T))\<close>; \<^verbatim>\<open>src/vec.hpp\<close> has no such
  function and declares
  \<^verbatim>\<open>template <class T, size_t STATIC_AMOUNT = 8> class SmallVector {\<close>.
\<close>

definition STATIC_AMOUNT_default :: "64 word \<Rightarrow> 64 word option" where
  "STATIC_AMOUNT_default size_of_t = calculate_static_size size_of_t"

definition STATIC_AMOUNT_default_vec_hpp :: "64 word \<Rightarrow> 64 word option" where
  "STATIC_AMOUNT_default_vec_hpp size_of_t = Some 8"

subsection \<open>Well-formed containers and their contents\<close>

text \<open>
  The invariant of the data model: the inline buffer has \<open>N\<close> slots; in inline mode exactly
  the first \<open>sz\<close> slots hold live objects; in spilled mode the vector holds the \<open>sz\<close>
  elements and the inline buffer holds none.
\<close>

definition wf :: "nat \<Rightarrow> 'a small_vector \<Rightarrow> bool" where
  "wf N s =
     (length (arr s) = N \<and>
      (case vec s of
         None \<Rightarrow>
           sz s \<le> N \<and> list_all (\<lambda>x. x \<noteq> None) (take (sz s) (arr s))
             \<and> list_all (\<lambda>x. x = None) (drop (sz s) (arr s))
       | Some v \<Rightarrow>
           sz s = length (elems v) \<and> list_all (\<lambda>x. x = None) (arr s)))"

text \<open>The sequence of elements a container holds, front to back.\<close>

definition to_list :: "'a small_vector \<Rightarrow> 'a list" where
  "to_list s =
     (case vec s of
        Some v \<Rightarrow> elems v
      | None \<Rightarrow> map the (take (sz s) (arr s)))"

subsection \<open>Exceptions, and sequences of calls\<close>

text \<open>The exception a call throws, with the state of the container it leaves.\<close>

fun thrown :: "'s failure + 'r \<Rightarrow> (exn \<times> 's) option" where
  "thrown (Inl (Throws e s)) = Some (e, s)"
| "thrown (Inl Assertion_failed) = None"
| "thrown (Inl Undefined) = None"
| "thrown (Inr r) = None"

text \<open>
  A call of a member function on one container, with its arguments; \<^verbatim>\<open>append\<close> takes the
  other container, a second object. \<open>run\<close> makes the calls of a list in turn and stops at the
  first one that does not return. \<open>two_objects a b\<close> is a store with \<open>a\<close> at address 0 and
  \<open>b\<close> elsewhere; \<open>object_of p\<close> reads the object at \<open>p\<close> out of the outcome of an
  operation on a store.
\<close>

datatype 'a operation =
    Push_back 'a | Emplace_back 'a | Insert nat 'a | Emplace nat 'a
  | Erase nat | Erase_range nat nat | Pop_back | Clear | Reserve nat | Shrink_to_fit
  | Resize nat | Resize_value nat 'a
  | Append_copy "'a small_vector" | Append_move "'a small_vector"

definition two_objects :: "'a small_vector \<Rightarrow> 'a small_vector \<Rightarrow> 'a store" where
  "two_objects a b = (\<lambda>p. if p = 0 then a else b)"

definition object_of :: "nat \<Rightarrow> 'a store failure + 'a store \<Rightarrow> 'a outcome" where
  "object_of p r =
     (case r of
        Inr st \<Rightarrow> Inr (st p)
      | Inl (Throws e st) \<Rightarrow> Inl (Throws e (st p))
      | Inl Assertion_failed \<Rightarrow> Inl Assertion_failed
      | Inl Undefined \<Rightarrow> Inl Undefined)"

fun call :: "nat \<Rightarrow> nat \<Rightarrow> 'a \<Rightarrow> 'a operation \<Rightarrow> 'a small_vector \<Rightarrow> 'a outcome" where
  "call N max_size dflt (Push_back x) s = push_back N x s"
| "call N max_size dflt (Emplace_back x) s = emplace_back N x s"
| "call N max_size dflt (Insert idx x) s = and_then (insert_sv N idx x s) (\<lambda>r. Inr (fst r))"
| "call N max_size dflt (Emplace idx x) s = and_then (emplace N idx x s) (\<lambda>r. Inr (fst r))"
| "call N max_size dflt (Erase idx) s = and_then (erase idx s) (\<lambda>r. Inr (fst r))"
| "call N max_size dflt (Erase_range i j) s = and_then (erase_range i j s) (\<lambda>r. Inr (fst r))"
| "call N max_size dflt Pop_back s = pop_back s"
| "call N max_size dflt Clear s = clear s"
| "call N max_size dflt (Reserve n) s = reserve N n s"
| "call N max_size dflt Shrink_to_fit s = shrink_to_fit s"
| "call N max_size dflt (Resize n) s = resize N max_size n dflt s"
| "call N max_size dflt (Resize_value n x) s = resize_value N max_size n x s"
| "call N max_size dflt (Append_copy other) s =
     object_of 0 (append_copy N 0 1 (two_objects s other))"
| "call N max_size dflt (Append_move other) s =
     object_of 0 (append_move N 0 1 (two_objects s other))"

primrec run :: "nat \<Rightarrow> nat \<Rightarrow> 'a \<Rightarrow> 'a operation list \<Rightarrow> 'a small_vector \<Rightarrow> 'a outcome" where
  "run N max_size dflt [] s = Inr s"
| "run N max_size dflt (c # cs) s = and_then (call N max_size dflt c s) (run N max_size dflt cs)"

subsection \<open>The limit of the heap buffer\<close>

text \<open>
  \<^verbatim>\<open>std::vector<T>::reserve(n)\<close> throws \<^verbatim>\<open>std::length_error\<close> when \<open>n\<close> exceeds the vector's
  own \<^verbatim>\<open>max_size()\<close>, and so does a \<^verbatim>\<open>push_back\<close> that would have to grow a buffer already
  holding \<^verbatim>\<open>max_size()\<close> elements; both leave the vector as it was. The calls through
  \<^verbatim>\<open>vec_->\<close> above take every request to be within that limit. \<^verbatim>\<open>resize\<close> hands a count of
  the caller's choice to \<^verbatim>\<open>reserve\<close>, so the functions on its path are embedded once more with
  the limit, the argument \<open>vector_max_size\<close> (\<^verbatim>\<open>std::vector<T>::max_size()\<close>, a constant of the
  element type and the platform, distinct from the container's \<^verbatim>\<open>max_size()\<close>). A buffer
  grows to at most that capacity. The bodies are those quoted above; the erasing branch of
  \<^verbatim>\<open>resize\<close> allocates nothing and is \<open>erase_range\<close> itself. An allocation within the limit
  is taken to succeed.

  In \<^verbatim>\<open>spillover\<close> the exception of \<^verbatim>\<open>vec_->reserve(capacity)\<close> leaves the function after
  \<^verbatim>\<open>vec_ = std::make_optional<VecT>()\<close>: the state it carries has the empty vector engaged.
\<close>

definition v_grow_limited :: "nat \<Rightarrow> 'a std_vector \<Rightarrow> 'a std_vector" where
  "v_grow_limited vector_max_size v =
     (if length (elems v) < cap v then v
      else v\<lparr>cap := min vector_max_size (max 1 (2 * cap v))\<rparr>)"

definition vec_reserve_limited :: "nat \<Rightarrow> nat \<Rightarrow> 'a small_vector \<Rightarrow> 'a outcome" where
  "vec_reserve_limited vector_max_size n s =
     (case vec s of
        None \<Rightarrow> Inl Undefined
      | Some v \<Rightarrow>
          if vector_max_size < n then Inl (Throws length_error s)
          else Inr (s\<lparr>vec := Some (v_reserve n v),
                     constructed := constructed s + relocated v (v_reserve n v),
                     destructed := destructed s + relocated v (v_reserve n v)\<rparr>))"

definition vec_push_back_limited :: "nat \<Rightarrow> 'a \<Rightarrow> 'a small_vector \<Rightarrow> 'a outcome" where
  "vec_push_back_limited vector_max_size x s =
     (case vec s of
        None \<Rightarrow> Inl Undefined
      | Some v \<Rightarrow>
          if cap v \<le> length (elems v) \<and> vector_max_size \<le> length (elems v)
          then Inl (Throws length_error s)
          else Inr (s\<lparr>vec := Some ((v_grow_limited vector_max_size v)\<lparr>elems := elems v @ [x]\<rparr>),
                     constructed :=
                       constructed s + relocated v (v_grow_limited vector_max_size v) + 1,
                     destructed :=
                       destructed s + relocated v (v_grow_limited vector_max_size v)\<rparr>))"

definition spill_slot_limited :: "nat \<Rightarrow> nat \<Rightarrow> 'a small_vector \<Rightarrow> 'a outcome" where
  "spill_slot_limited vector_max_size i s =
     and_then (get_element s i)
       (\<lambda>x. and_then (vec_push_back_limited vector_max_size x s) (destroy_at i))"

definition spillover_limited :: "nat \<Rightarrow> nat \<Rightarrow> nat \<Rightarrow> 'a small_vector \<Rightarrow> 'a outcome" where
  "spillover_limited N vector_max_size requested s =
     (if vec s \<noteq> None then Inl Assertion_failed
      else if requested < N then Inl Assertion_failed
      else and_then (vec_reserve_limited vector_max_size requested (s\<lparr>vec := Some v_empty\<rparr>))
             (for_each (spillover_slots N s) (spill_slot_limited vector_max_size)))"

definition reserve_limited :: "nat \<Rightarrow> nat \<Rightarrow> nat \<Rightarrow> 'a small_vector \<Rightarrow> 'a outcome" where
  "reserve_limited N vector_max_size n s =
     (if n \<le> N then Inr s
      else if vec s = None then spillover_limited N vector_max_size n s
      else vec_reserve_limited vector_max_size n s)"


definition emplace_back_limited :: "nat \<Rightarrow> nat \<Rightarrow> 'a \<Rightarrow> 'a small_vector \<Rightarrow> 'a outcome" where
  "emplace_back_limited N vector_max_size val s =
     and_then
       (if vec s = None
        then (if sz s \<ge> N
              then and_then (spillover_limited N vector_max_size (sz s + 1) s)
                     (vec_push_back_limited vector_max_size val)
              else construct_at (sz s) val s)
        else vec_push_back_limited vector_max_size val s)
       (\<lambda>s1. Inr (s1\<lparr>sz := sz s1 + 1\<rparr>))"


definition resize_limited ::
  "nat \<Rightarrow> nat \<Rightarrow> nat \<Rightarrow> nat \<Rightarrow> 'a \<Rightarrow> 'a small_vector \<Rightarrow> 'a outcome" where
  "resize_limited N max_size vector_max_size count dflt s =
     (if count = sz s then Inr s
      else if count > max_size then Inl (Throws length_error s)
      else if sz s > count
      then and_then (erase_range count (sz s) s) (\<lambda>r. Inr (fst r))
      else and_then (reserve_limited N vector_max_size count s)
             (\<lambda>s1. for_each [sz s1 ..< count]
                (\<lambda>i. emplace_back_limited N vector_max_size dflt) s1))"

section \<open>Basic facts\<close>

lemma and_then_Inl [simp]: "and_then (Inl e) f = Inl e"
  by (simp add: and_then_def)

lemma and_then_Inr [simp]: "and_then (Inr x) f = f x"
  by (simp add: and_then_def)

lemma and_then_eq_Inr:
  "and_then r f = Inr y \<longleftrightarrow> (\<exists>x. r = Inr x \<and> f x = Inr y)"
  by (cases r) simp_all

lemma for_each_append:
  "for_each (xs @ ys) body s = and_then (for_each xs body s) (for_each ys body)"
proof (induction xs arbitrary: s)
  case Nil
  show ?case by simp
next
  case (Cons i xs)
  show ?case
  proof (cases "body i s")
    case (Inl e)
    then show ?thesis by simp
  next
    case (Inr s')
    then show ?thesis using Cons.IH [of s'] by simp
  qed
qed

lemma and_then_return [simp]: "and_then r Inr = r"
  by (cases r) simp_all

lemma and_then_for_each_Nil [simp]: "and_then r (for_each [] body) = r"
  by (cases r) simp_all

lemma for_each_upt_Suc:
  "k \<le> m \<Longrightarrow> for_each [k ..< Suc m] body s = and_then (for_each [k ..< m] body s) (body m)"
  by (cases "for_each [k ..< m] body s") (simp_all add: for_each_append)

lemma sub_size_le [simp]: "b \<le> a \<Longrightarrow> sub_size a b = a - b"
  by (simp add: sub_size_def)

text \<open>The migration loop of \<^verbatim>\<open>spillover\<close>, run on live slots.\<close>

lemma spill_slot_live:
  assumes "i < length (arr s)" and "arr s ! i = Some x" and "vec s = Some v"
  shows "spill_slot i s =
    Inr (s\<lparr>arr := (arr s)[i := None],
           vec := Some (v_push_back x v),
           constructed := constructed s + relocated v (v_grow v) + 1,
           destructed := destructed s + relocated v (v_grow v) + 1\<rparr>)"
  using assms by (simp add: spill_slot_def get_element_def vec_push_back_def destroy_at_def)

lemma spill_loop:
  assumes "m \<le> length (arr s)" and "list_all (\<lambda>x. x \<noteq> None) (take m (arr s))"
    and "vec s = Some v"
  shows "\<exists>s' v'. for_each [0 ..< m] spill_slot s = Inr s'
     \<and> arr s' = replicate m None @ drop m (arr s)
     \<and> vec s' = Some v' \<and> elems v' = elems v @ map the (take m (arr s))
     \<and> sz s' = sz s
     \<and> constructed s' + destructed s = constructed s + destructed s'"
  using assms
proof (induction m)
  case 0
  then show ?case by simp
next
  case (Suc m)
  then have m: "m < length (arr s)" and live: "list_all (\<lambda>x. x \<noteq> None) (take m (arr s))"
    and here: "arr s ! m \<noteq> None"
    by (simp_all add: take_Suc_conv_app_nth)
  from Suc.IH [OF _ live Suc.prems(3)] m obtain s' v' where
    run: "for_each [0 ..< m] spill_slot s = Inr s'"
    and a: "arr s' = replicate m None @ drop m (arr s)"
    and v: "vec s' = Some v'" "elems v' = elems v @ map the (take m (arr s))"
    and z: "sz s' = sz s"
    and c: "constructed s' + destructed s = constructed s + destructed s'"
    by auto
  from here obtain x where x: "arr s ! m = Some x" by auto
  have len: "m < length (arr s')" using a m by simp
  have at_m: "arr s' ! m = Some x" using a m x by (simp add: nth_append)
  have upd: "(arr s')[m := None] = replicate (Suc m) None @ drop (Suc m) (arr s)"
    using a m by (simp add: list_update_append replicate_append_same upd_conv_take_nth_drop Cons_nth_drop_Suc[symmetric])
  have "for_each [0 ..< Suc m] spill_slot s = spill_slot m s'"
    by (simp add: for_each_append run)
  then have step: "for_each [0 ..< Suc m] spill_slot s =
    Inr (s'\<lparr>arr := (arr s')[m := None],
           vec := Some (v_push_back x v'),
           constructed := constructed s' + relocated v' (v_grow v') + 1,
           destructed := destructed s' + relocated v' (v_grow v') + 1\<rparr>)"
    by (simp only: spill_slot_live [OF len at_m v(1)])
  show ?case
    unfolding step using upd v z c m x
    by (simp add: v_push_back_def take_Suc_conv_app_nth)
qed

text \<open>Well-formed containers: spilling, appending at the back, reserving.\<close>

lemma all_None_replicate:
  "list_all (\<lambda>x. x = None) xs \<Longrightarrow> xs = replicate (length xs) None"
  by (induction xs) simp_all

lemma list_all_replicate_None [simp]: "list_all (\<lambda>x. x = None) (replicate n None)"
  by (induction n) simp_all

lemma list_all_drop: "list_all P xs \<Longrightarrow> list_all P (drop n xs)"
  by (auto simp: list_all_iff dest: in_set_dropD)

lemma wf_inlineD:
  assumes "wf N s" and "vec s = None"
  shows "length (arr s) = N" and "sz s \<le> N"
    and "list_all (\<lambda>x. x \<noteq> None) (take (sz s) (arr s))"
    and "list_all (\<lambda>x. x = None) (drop (sz s) (arr s))"
  using assms by (simp_all add: wf_def)

lemma wf_spilledD:
  assumes "wf N s" and "vec s = Some v"
  shows "length (arr s) = N" and "sz s = length (elems v)" and "arr s = replicate N None"
  using assms all_None_replicate [of "arr s"] by (simp_all add: wf_def)

lemma length_to_list: "wf N s \<Longrightarrow> length (to_list s) = sz s"
  by (cases "vec s") (simp_all add: wf_def to_list_def)

lemma spillover_inline:
  fixes s :: "'a small_vector"
  assumes "wf N s" and "vec s = None" and "N \<le> c"
  shows "\<exists>s'. spillover N c s = Inr s' \<and> wf N s' \<and> vec s' \<noteq> None
     \<and> to_list s' = to_list s \<and> sz s' = sz s
     \<and> constructed s' + destructed s = constructed s + destructed s'"
proof -
  note d = wf_inlineD [OF assms(1,2)]
  let ?e = "v_empty :: 'a std_vector"
  let ?t = "s\<lparr>vec := Some (v_reserve c ?e),
    constructed := constructed s + relocated ?e (v_reserve c ?e),
    destructed := destructed s + relocated ?e (v_reserve c ?e)\<rparr>"
  have "sz s \<le> length (arr ?t)" and "list_all (\<lambda>x. x \<noteq> None) (take (sz s) (arr ?t))"
    and "vec ?t = Some (v_reserve c v_empty)"
    using d by simp_all
  from spill_loop [OF this] obtain s' v' where
    run: "for_each [0 ..< sz s] spill_slot ?t = Inr s'"
    and a: "arr s' = replicate (sz s) None @ drop (sz s) (arr s)"
    and v: "vec s' = Some v'" "elems v' = elems (v_reserve c v_empty) @ map the (take (sz s) (arr s))"
    and z: "sz s' = sz s"
    and c: "constructed s' + destructed ?t = constructed ?t + destructed s'"
    by auto
  have e: "elems (v_reserve c v_empty) = []"
    by (simp add: v_reserve_def v_empty_def)
  have "spillover N c s = Inr s'"
    using assms d run by (simp add: spillover_def vec_reserve_def spillover_slots_def min_absorb1)
  moreover have "wf N s'"
    using a v z d e by (simp add: wf_def)
  moreover have "to_list s' = to_list s"
    using v e assms(2) by (simp add: to_list_def)
  ultimately show ?thesis using v z c by auto
qed

lemma push_back_wf:
  assumes "wf N s"
  shows "\<exists>s'. push_back N x s = Inr s' \<and> wf N s' \<and> to_list s' = to_list s @ [x]
     \<and> sz s' = Suc (sz s) \<and> (vec s' = None \<longleftrightarrow> vec s = None \<and> sz s < N)
     \<and> constructed s' + destructed s = Suc (constructed s + destructed s')"
proof (cases "vec s")
  case None
  note d = wf_inlineD [OF assms None]
  show ?thesis
  proof (cases "sz s < N")
    case True
    have 1: "push_back N x s = Inr (s\<lparr>arr := (arr s)[sz s := Some x],
        constructed := constructed s + 1, sz := sz s + 1\<rparr>)"
      using None True d by (simp add: push_back_def construct_at_def)
    have 2: "take (Suc (sz s)) ((arr s)[sz s := Some x]) = take (sz s) (arr s) @ [Some x]"
      using True d by (simp add: take_Suc_conv_app_nth)
    have "drop (Suc (sz s)) (arr s) = drop 1 (drop (sz s) (arr s))"
      by simp
    then have 3: "list_all (\<lambda>x. x = None) (drop (Suc (sz s)) (arr s))"
      using list_all_drop [OF d(4), of 1] by simp
    show ?thesis
      unfolding 1 using None True d 2 3
      by (simp add: wf_def to_list_def)
  next
    case False
    with d have full: "sz s = N" by simp
    from spillover_inline [OF assms None, of "sz s + 1"] full obtain s1 where
      s1: "spillover N (sz s + 1) s = Inr s1" "wf N s1" "vec s1 \<noteq> None"
        "to_list s1 = to_list s" "sz s1 = sz s"
        "constructed s1 + destructed s = constructed s + destructed s1"
      by auto
    from s1(3) obtain v where v: "vec s1 = Some v" by auto
    show ?thesis
      using None False s1 v
      by (simp add: push_back_def vec_push_back_def wf_def to_list_def v_push_back_def v_grow_def)
  qed
next
  case (Some v)
  then show ?thesis
    using assms
    by (simp add: push_back_def vec_push_back_def wf_def to_list_def v_push_back_def v_grow_def)
qed

lemma emplace_back_eq: "emplace_back N x s = push_back N x s"
  by (simp add: emplace_back_def push_back_def)

lemma reserve_wf:
  assumes "wf N s"
  shows "\<exists>s'. reserve N n s = Inr s' \<and> wf N s' \<and> to_list s' = to_list s
     \<and> sz s' = sz s \<and> (vec s' = None \<longleftrightarrow> vec s = None \<and> n \<le> N)
     \<and> constructed s' + destructed s = constructed s + destructed s'"
proof (cases "n \<le> N")
  case True
  then show ?thesis using assms by (simp add: reserve_def)
next
  case False
  show ?thesis
  proof (cases "vec s")
    case None
    from spillover_inline [OF assms None, of n] False None show ?thesis
      by (auto simp: reserve_def)
  next
    case (Some v)
    then show ?thesis using assms False
      by (simp add: reserve_def vec_reserve_def wf_def to_list_def v_reserve_def)
  qed
qed

lemma index_wf:
  assumes "wf N s" and "i < sz s"
  shows "index s i = Inr (to_list s ! i)"
proof (cases "vec s")
  case None
  note d = wf_inlineD [OF assms(1) None]
  from d(3) assms(2) d(1,2) have "arr s ! i \<noteq> None"
    by (simp add: list_all_length)
  then show ?thesis
    using None assms(2) d(1,2) by (auto simp: index_def get_element_def to_list_def)
next
  case (Some v)
  then show ?thesis
    using assms by (simp add: index_def to_list_def wf_def)
qed

lemma at_wf:
  assumes "wf N s"
  shows "at s i = (if sz s \<le> i then Inl (Throws out_of_range s) else Inr (to_list s ! i))"
  using index_wf [OF assms, of i] by (simp add: at_def)

section \<open>Checked element access\<close>

text \<open>
  Claim C7. For a container of length \<open>L\<close> and an index \<open>i\<close>, \<^verbatim>\<open>at(i)\<close> throws
  \<^verbatim>\<open>std::out_of_range\<close> exactly when \<open>i \<ge> L\<close>, and the container is then as it was;
  otherwise it returns the element at index \<open>i\<close>, in inline mode and in spilled mode.
\<close>

theorem at_checked:
  assumes "wf N s"
  shows "(at s i = Inl (Throws out_of_range s') \<longleftrightarrow> sz s \<le> i \<and> s' = s)
     \<and> (i < sz s \<longrightarrow> at s i = Inr (to_list s ! i))"
  using at_wf [OF assms, of i] by auto

text \<open>
  On the length-5 container \<open>[1, 2, 3, 4, 5]\<close>, inline with capacity 8 or spilled from a
  capacity of 2, \<^verbatim>\<open>at(5)\<close> throws and \<^verbatim>\<open>at(4)\<close> returns the last element.
\<close>

theorem at_checked_witness:
  "wf 8 \<lparr>arr = [Some 1, Some 2, Some 3, Some 4, Some (5::int), None, None, None],
          vec = None, sz = 5, constructed = 5, destructed = 0\<rparr>
   \<and> at \<lparr>arr = [Some 1, Some 2, Some 3, Some 4, Some (5::int), None, None, None],
          vec = None, sz = 5, constructed = 5, destructed = 0\<rparr> 5
     = Inl (Throws out_of_range
         \<lparr>arr = [Some 1, Some 2, Some 3, Some 4, Some (5::int), None, None, None],
          vec = None, sz = 5, constructed = 5, destructed = 0\<rparr>)
   \<and> at \<lparr>arr = [Some 1, Some 2, Some 3, Some 4, Some (5::int), None, None, None],
          vec = None, sz = 5, constructed = 5, destructed = 0\<rparr> 4 = Inr 5
   \<and> wf 2 \<lparr>arr = [None, None], vec = Some \<lparr>elems = [1, 2, 3, 4, 5::int], cap = 8\<rparr>,
          sz = 5, constructed = 7, destructed = 2\<rparr>
   \<and> at \<lparr>arr = [None, None], vec = Some \<lparr>elems = [1, 2, 3, 4, 5::int], cap = 8\<rparr>,
          sz = 5, constructed = 7, destructed = 2\<rparr> 5
     = Inl (Throws out_of_range
         \<lparr>arr = [None, None], vec = Some \<lparr>elems = [1, 2, 3, 4, 5::int], cap = 8\<rparr>,
          sz = 5, constructed = 7, destructed = 2\<rparr>)
   \<and> at \<lparr>arr = [None, None], vec = Some \<lparr>elems = [1, 2, 3, 4, 5::int], cap = 8\<rparr>,
          sz = 5, constructed = 7, destructed = 2\<rparr> 4 = Inr 5"
proof -
  let ?s = "\<lparr>arr = [Some 1, Some 2, Some 3, Some 4, Some (5::int), None, None, None],
          vec = None, sz = 5, constructed = 5, destructed = 0\<rparr>"
  let ?t = "\<lparr>arr = [None, None], vec = Some \<lparr>elems = [1, 2, 3, 4, 5::int], cap = 8\<rparr>,
          sz = 5, constructed = 7, destructed = 2\<rparr>"
  have w: "wf 8 ?s" by (simp add: wf_def)
  have v: "wf 2 ?t" by (simp add: wf_def)
  show ?thesis
    using w v at_checked [OF w, of 5 ?s] at_checked [OF w, of 4 ?s]
      at_checked [OF v, of 5 ?t] at_checked [OF v, of 4 ?t]
    by (simp add: to_list_def)
qed

section \<open>The default inline capacity\<close>

text \<open>
  Claim C8, amended. When the caller gives no inline capacity: in the revision that has
  \<^verbatim>\<open>calculate_static_size\<close> it is computed from \<^verbatim>\<open>sizeof(T)\<close>, and for every positive
  \<^verbatim>\<open>sizeof(T)\<close> whose eightfold is representable in \<^verbatim>\<open>size_t\<close> (\<open>sizeof(T) < 2\<^sup>6\<^sup>1\<close>) it is
  \<open>64 / sizeof(T)\<close> when \<open>sizeof(T) \<le> 64\<close>; otherwise 8, unless \<open>8 * sizeof(T)\<close> exceeds
  10240 bytes, in which case it is the larger of 1 and \<open>10240 / sizeof(T)\<close>. In
  \<^verbatim>\<open>src/vec.hpp\<close> it is 8 for every element type.
\<close>

theorem calculate_static_size_value:
  fixes size_of_t :: "64 word"
  assumes "0 < unat size_of_t" and "8 * unat size_of_t < 2 ^ 64"
  shows "map_option unat (STATIC_AMOUNT_default size_of_t) =
     Some (if unat size_of_t \<le> 64 then 64 div unat size_of_t
           else if 8 * unat size_of_t \<le> 10240 then 8
           else max 1 (10240 div unat size_of_t))
   \<and> map_option unat (STATIC_AMOUNT_default_vec_hpp size_of_t) = Some 8"
proof -
  have nz: "size_of_t \<noteq> 0" using assms(1) by (auto simp: unat_eq_0)
  have le64: "size_of_t \<le> 64 \<longleftrightarrow> unat size_of_t \<le> 64" by (simp add: word_le_nat_alt)
  have mul: "unat (8 * size_of_t) = 8 * unat size_of_t"
    using assms(2) by (simp add: unat_word_ariths)
  have le10k: "8 * size_of_t \<le> 10240 \<longleftrightarrow> 8 * unat size_of_t \<le> 10240"
    using mul by (simp add: word_le_nat_alt)
  have d64: "unat (64 div size_of_t) = 64 div unat size_of_t" by (simp add: unat_div)
  have d10k: "unat (10240 div size_of_t) = 10240 div unat size_of_t" by (simp add: unat_div)
  have z: "10240 div size_of_t = 0 \<longleftrightarrow> 10240 div unat size_of_t = 0"
    using d10k by (metis unat_eq_0)
  show ?thesis
    using nz le64 le10k d64 d10k z
    by (auto simp: STATIC_AMOUNT_default_def STATIC_AMOUNT_default_vec_hpp_def
        calculate_static_size_def CACHE_LINE_SIZE_BYTES_def MAX_SIZE_BYTES_def
        FALLBACK_SIZE_def Let_def max_def)
qed

text \<open>
  With \<^verbatim>\<open>calculate_static_size\<close> a 4-byte element gives 16 slots, a 100-byte element 8, a
  2000-byte element 5 and a 20000-byte element 1; in \<^verbatim>\<open>src/vec.hpp\<close> a 4-byte element
  gives 8.
\<close>

theorem calculate_static_size_value_witness:
  "0 < unat (4 :: 64 word) \<and> 8 * unat (4 :: 64 word) < 2 ^ 64
   \<and> map_option unat (STATIC_AMOUNT_default 4) = Some 16
   \<and> map_option unat (STATIC_AMOUNT_default 100) = Some 8
   \<and> map_option unat (STATIC_AMOUNT_default 2000) = Some 5
   \<and> map_option unat (STATIC_AMOUNT_default 20000) = Some 1
   \<and> map_option unat (STATIC_AMOUNT_default_vec_hpp 4) = Some 8"
  using calculate_static_size_value [of 4] calculate_static_size_value [of 100]
    calculate_static_size_value [of 2000] calculate_static_size_value [of 20000]
  by simp

text \<open>
  The claim as stated fails in two places. In \<^verbatim>\<open>src/vec.hpp\<close> the default for a 4-byte
  element is 8, where the claim gives \<open>64 / 4 = 16\<close>. And \<^verbatim>\<open>FALLBACK_SIZE * size_of_t\<close> is a
  product of \<^verbatim>\<open>size_t\<close> values: for \<open>sizeof(T) = 2\<^sup>6\<^sup>1\<close> it wraps around to 0, which is within
  the budget, so the function returns 8 where the claim gives the larger of 1 and
  \<open>10240 / 2\<^sup>6\<^sup>1 = 0\<close>.
\<close>

theorem default_capacity_counterexample:
  "map_option unat (STATIC_AMOUNT_default_vec_hpp 4) = Some 8
   \<and> unat (4 :: 64 word) \<le> 64 \<and> 64 div unat (4 :: 64 word) = 16
   \<and> map_option unat (STATIC_AMOUNT_default (2 ^ 61)) = Some 8
   \<and> \<not> unat (2 ^ 61 :: 64 word) \<le> 64 \<and> \<not> 8 * unat (2 ^ 61 :: 64 word) \<le> 10240
   \<and> max 1 (10240 div unat (2 ^ 61 :: 64 word)) = 1"
  by (simp add: STATIC_AMOUNT_default_def STATIC_AMOUNT_default_vec_hpp_def
      calculate_static_size_def CACHE_LINE_SIZE_BYTES_def MAX_SIZE_BYTES_def
      FALLBACK_SIZE_def Let_def)

section \<open>Comparison\<close>

lemma std_equal_wf:
  assumes "wf N a" and "wf N' b" and "list_all (\<lambda>j. j < sz a \<and> j < sz b) js"
  shows "std_equal js a b = Inr (list_all (\<lambda>j. to_list a ! j = to_list b ! j) js)"
  using assms(3)
proof (induction js)
  case Nil
  show ?case by simp
next
  case (Cons j js)
  then have "index a j = Inr (to_list a ! j)" and "index b j = Inr (to_list b ! j)"
    using index_wf [OF assms(1)] index_wf [OF assms(2)] by simp_all
  then show ?case using Cons by simp
qed

lemma eq_wf:
  assumes "wf N a" and "wf N' b"
  shows "eq a b = Inr (sz a = sz b \<and> (\<forall>i. i < sz a \<longrightarrow> to_list a ! i = to_list b ! i))"
proof (cases "sz a = sz b")
  case False
  then show ?thesis by (simp add: eq_def)
next
  case True
  then have "list_all (\<lambda>j. j < sz a \<and> j < sz b) [0 ..< sz a]"
    by (simp add: list_all_iff)
  from std_equal_wf [OF assms this] True show ?thesis
    by (auto simp: eq_def list_all_iff)
qed

text \<open>
  Claim C9. For two containers \<open>a\<close> and \<open>b\<close> of one element type, \<open>a == b\<close> holds exactly when
  their lengths are equal and the elements at every index are equal, whatever the storage
  mode of either side; \<open>a != b\<close> is its negation.
\<close>

theorem eq_elementwise:
  assumes "wf N a" and "wf N' b"
  shows "eq a b = Inr (sz a = sz b \<and> (\<forall>i. i < sz a \<longrightarrow> to_list a ! i = to_list b ! i))
     \<and> neq a b = Inr (\<not> (sz a = sz b \<and> (\<forall>i. i < sz a \<longrightarrow> to_list a ! i = to_list b ! i)))
     \<and> (eq a b = Inr True \<longleftrightarrow> to_list a = to_list b)"
proof -
  have "to_list a = to_list b \<longleftrightarrow> sz a = sz b \<and> (\<forall>i. i < sz a \<longrightarrow> to_list a ! i = to_list b ! i)"
    using length_to_list [OF assms(1)] length_to_list [OF assms(2)]
    by (auto simp: list_eq_iff_nth_eq)
  then show ?thesis
    using eq_wf [OF assms] by (simp add: neq_def)
qed

text \<open>An inline container and a spilled one, both holding \<open>[1, 2, 3]\<close>, compare equal.\<close>

theorem eq_elementwise_witness:
  "wf 4 \<lparr>arr = [Some 1, Some 2, Some (3::int), None], vec = None, sz = 3,
          constructed = 3, destructed = 0\<rparr>
   \<and> wf 2 \<lparr>arr = [None, None], vec = Some \<lparr>elems = [1, 2, 3::int], cap = 3\<rparr>, sz = 3,
          constructed = 5, destructed = 2\<rparr>
   \<and> eq \<lparr>arr = [Some 1, Some 2, Some (3::int), None], vec = None, sz = 3,
          constructed = 3, destructed = 0\<rparr>
        \<lparr>arr = [None, None], vec = Some \<lparr>elems = [1, 2, 3::int], cap = 3\<rparr>, sz = 3,
          constructed = 5, destructed = 2\<rparr> = Inr True
   \<and> neq \<lparr>arr = [Some 1, Some 2, Some (3::int), None], vec = None, sz = 3,
          constructed = 3, destructed = 0\<rparr>
        \<lparr>arr = [None, None], vec = Some \<lparr>elems = [1, 2, 3::int], cap = 3\<rparr>, sz = 3,
          constructed = 5, destructed = 2\<rparr> = Inr False"
proof -
  let ?a = "\<lparr>arr = [Some 1, Some 2, Some (3::int), None], vec = None, sz = 3,
          constructed = 3, destructed = 0\<rparr>"
  let ?b = "\<lparr>arr = [None, None], vec = Some \<lparr>elems = [1, 2, 3::int], cap = 3\<rparr>, sz = 3,
          constructed = 5, destructed = 2\<rparr>"
  have a: "wf 4 ?a" by (simp add: wf_def)
  have b: "wf 2 ?b" by (simp add: wf_def)
  have l: "to_list ?a = to_list ?b" by (simp add: to_list_def)
  show ?thesis
    using a b l eq_elementwise [OF a b] by simp
qed

section \<open>Spillover from a full inline buffer\<close>

lemma spillover_live_prefix:
  fixes s :: "'a small_vector"
  assumes "length (arr s) = N" and "vec s = None" and "N \<le> c"
    and "list_all (\<lambda>x. x \<noteq> None) (take (min (sz s) N) (arr s))"
  shows "\<exists>s' v'. spillover N c s = Inr s'
     \<and> arr s' = replicate (min (sz s) N) None @ drop (min (sz s) N) (arr s)
     \<and> vec s' = Some v' \<and> elems v' = map the (take (min (sz s) N) (arr s))
     \<and> sz s' = sz s"
proof -
  let ?e = "v_empty :: 'a std_vector"
  let ?t = "s\<lparr>vec := Some (v_reserve c ?e),
    constructed := constructed s + relocated ?e (v_reserve c ?e),
    destructed := destructed s + relocated ?e (v_reserve c ?e)\<rparr>"
  have "min (sz s) N \<le> length (arr ?t)"
    and "list_all (\<lambda>x. x \<noteq> None) (take (min (sz s) N) (arr ?t))"
    and "vec ?t = Some (v_reserve c ?e)"
    using assms by simp_all
  from spill_loop [OF this] obtain s' v' where
    run: "for_each [0 ..< min (sz s) N] spill_slot ?t = Inr s'"
    and a: "arr s' = replicate (min (sz s) N) None @ drop (min (sz s) N) (arr s)"
    and v: "vec s' = Some v'"
      "elems v' = elems (v_reserve c ?e) @ map the (take (min (sz s) N) (arr s))"
    and z: "sz s' = sz s"
    by auto
  have e: "elems (v_reserve c ?e) = []"
    by (simp add: v_reserve_def v_empty_def)
  have "spillover N c s = Inr s'"
    using assms run by (simp add: spillover_def vec_reserve_def spillover_slots_def)
  then show ?thesis using a v z e by simp
qed

lemma full_inline_spill:
  assumes "wf N s" and "vec s = None" and "sz s = N"
  shows "\<exists>s' v'. spillover N (Suc N) (s\<lparr>sz := Suc N\<rparr>) = Inr s'
     \<and> arr s' = replicate N None \<and> vec s' = Some v' \<and> elems v' = to_list s
     \<and> sz s' = Suc N"
proof -
  note d = wf_inlineD [OF assms(1,2)]
  let ?t = "s\<lparr>sz := Suc N\<rparr>"
  have "length (arr ?t) = N" and "vec ?t = None" and "N \<le> Suc N"
    and "list_all (\<lambda>x. x \<noteq> None) (take (min (sz ?t) N) (arr ?t))"
    using d assms by simp_all
  from spillover_live_prefix [OF this] show ?thesis
    using d assms by (simp add: to_list_def)
qed

lemma insert_full_inline:
  assumes "wf N s" and "vec s = None" and "sz s = N" and "idx \<le> N"
  shows "\<exists>s' v'. insert_sv N idx x s = Inr (s', idx) \<and> vec s' = Some v'
     \<and> elems v' = take idx (to_list s) @ x # drop idx (to_list s)
     \<and> arr s' = replicate N None \<and> sz s' = Suc N"
proof -
  from full_inline_spill [OF assms(1-3)] obtain s1 v1 where
    s1: "spillover N (Suc N) (s\<lparr>sz := Suc N\<rparr>) = Inr s1" "arr s1 = replicate N None"
      "vec s1 = Some v1" "elems v1 = to_list s" "sz s1 = Suc N"
    by auto
  have "length (to_list s) = N"
    using length_to_list [OF assms(1)] assms(3) by simp
  then show ?thesis
    using assms s1 by (simp add: insert_sv_def Let_def vec_insert_def v_insert_def)
qed

lemma emplace_eq: "emplace N idx x s = insert_sv N idx x s"
  by (simp add: emplace_def insert_sv_def)

text \<open>
  Claim C10. Whenever \<^verbatim>\<open>spillover\<close> runs, every slot of the inline buffer it reads or
  destructs has an index below the element count at the call and below \<open>N\<close>. When \<^verbatim>\<open>insert\<close>
  or \<^verbatim>\<open>emplace\<close> on a full inline container has incremented the length to \<open>N + 1\<close> before it
  spills, the loop visits the slots \<open>0, ..., N - 1\<close>, moves the \<open>N\<close> elements into the heap
  buffer in their order and leaves no live object in the inline buffer; the call then
  returns with the new element at its index.
\<close>

theorem spillover_guarded:
  assumes "wf N s" and "vec s = None" and "sz s = N" and "idx \<le> N"
  shows "list_all (\<lambda>i. i < sz t \<and> i < N) (spillover_slots N t)
     \<and> spillover_slots N (s\<lparr>sz := sz s + 1\<rparr>) = [0 ..< N]
     \<and> (\<exists>s' v'. spillover N (sz s + 1) (s\<lparr>sz := sz s + 1\<rparr>) = Inr s'
           \<and> vec s' = Some v' \<and> elems v' = to_list s \<and> arr s' = replicate N None)
     \<and> (\<exists>s' v'. insert_sv N idx x s = Inr (s', idx) \<and> vec s' = Some v'
           \<and> elems v' = take idx (to_list s) @ x # drop idx (to_list s))
     \<and> (\<exists>s' v'. emplace N idx x s = Inr (s', idx) \<and> vec s' = Some v'
           \<and> elems v' = take idx (to_list s) @ x # drop idx (to_list s))"
proof -
  have 1: "list_all (\<lambda>i. i < sz t \<and> i < N) (spillover_slots N t)"
    by (simp add: spillover_slots_def list_all_iff)
  have 2: "spillover_slots N (s\<lparr>sz := sz s + 1\<rparr>) = [0 ..< N]"
    using assms(3) by (simp add: spillover_slots_def)
  have 3: "\<exists>s' v'. spillover N (sz s + 1) (s\<lparr>sz := sz s + 1\<rparr>) = Inr s'
           \<and> vec s' = Some v' \<and> elems v' = to_list s \<and> arr s' = replicate N None"
    using full_inline_spill [OF assms(1-3)] assms(3) by auto
  have 4: "\<exists>s' v'. insert_sv N idx x s = Inr (s', idx) \<and> vec s' = Some v'
           \<and> elems v' = take idx (to_list s) @ x # drop idx (to_list s)"
    using insert_full_inline [OF assms, of x] by auto
  from 1 2 3 4 show ?thesis by (simp add: emplace_eq)
qed

text \<open>Inserting 15 at index 1 into the full container \<open>[10, 20]\<close> of inline capacity 2.\<close>

theorem spillover_guarded_witness:
  "wf 2 \<lparr>arr = [Some 10, Some (20::int)], vec = None, sz = 2, constructed = 2, destructed = 0\<rparr>
   \<and> spillover_slots 2 \<lparr>arr = [Some 10, Some (20::int)], vec = None, sz = 3,
        constructed = 2, destructed = 0\<rparr> = [0, 1]
   \<and> insert_sv 2 1 15 \<lparr>arr = [Some 10, Some (20::int)], vec = None, sz = 2,
        constructed = 2, destructed = 0\<rparr>
     = Inr (\<lparr>arr = [None, None], vec = Some \<lparr>elems = [10, 15, 20], cap = 3\<rparr>, sz = 3,
        constructed = 5, destructed = 2\<rparr>, 1)"
proof -
  let ?s = "\<lparr>arr = [Some 10, Some (20::int)], vec = None, sz = 2, constructed = 2, destructed = 0\<rparr>"
  have w: "wf 2 ?s" by (simp add: wf_def)
  have i: "insert_sv 2 1 15 ?s
     = Inr (\<lparr>arr = [None, None], vec = Some \<lparr>elems = [10, 15, 20], cap = 3\<rparr>, sz = 3,
        constructed = 5, destructed = 2\<rparr>, 1)"
    by (simp add: insert_sv_def Let_def spillover_def spillover_slots_def vec_reserve_def
      v_reserve_def v_empty_def relocated_def spill_slot_def get_element_def vec_push_back_def
      v_push_back_def v_grow_def destroy_at_def vec_insert_def v_insert_def upt_rec)
  show ?thesis
    using w i spillover_guarded [OF w, of 1 ?s 15] by (simp add: upt_rec)
qed

section \<open>The length error of resize\<close>

text \<open>The erasing branch throws nothing.\<close>

lemma thrown_and_then:
  assumes "thrown r = None" and "\<And>x. thrown (f x) = None"
  shows "thrown (and_then r f) = None"
proof (cases r)
  case (Inl a)
  then show ?thesis using assms(1) by (cases a) simp_all
next
  case (Inr x)
  then show ?thesis using assms(2) by simp
qed

lemma thrown_for_each:
  assumes "\<And>i s. thrown (body i s) = None"
  shows "thrown (for_each js body s) = None"
proof (induction js arbitrary: s)
  case Nil
  show ?case by simp
next
  case (Cons j js)
  show ?case
    using assms [of j s] Cons.IH by (simp add: thrown_and_then)
qed

lemma thrown_get_element [simp]: "thrown (get_element s i) = None"
  by (simp add: get_element_def split: option.splits)

lemma thrown_construct_at [simp]: "thrown (construct_at i x s) = None"
  by (simp add: construct_at_def)

lemma thrown_destroy_at [simp]: "thrown (destroy_at i s) = None"
  by (simp add: destroy_at_def)

lemma thrown_move_slot [simp]: "thrown (move_slot i j s) = None"
  by (simp add: move_slot_def thrown_and_then)

lemma thrown_vec_erase_range [simp]: "thrown (vec_erase_range i j s) = None"
  by (simp add: vec_erase_range_def split: option.splits)

lemma thrown_erase_range [simp]: "thrown (erase_range i j s) = None"
  by (simp add: erase_range_def Let_def thrown_and_then thrown_for_each)

















text \<open>
  Above the limit of the heap buffer the test in \<^verbatim>\<open>resize\<close> is not the only source of the
  exception. When an inline container is resized to a \<open>count\<close> that passes the test but
  exceeds the vector's \<^verbatim>\<open>max_size()\<close>, \<^verbatim>\<open>reserve\<close> spills and \<^verbatim>\<open>vec_->reserve\<close> throws
  inside \<^verbatim>\<open>spillover\<close>: the container is left with the empty vector engaged, its elements
  still in the inline buffer. With \<^verbatim>\<open>long\<close> elements (\<^verbatim>\<open>max_size()\<close> is \<open>2\<^sup>6\<^sup>3 - 1\<close>, the
  vector's limit \<open>2\<^sup>6\<^sup>0 - 1\<close>) this is \<^verbatim>\<open>resize(1UL << 62)\<close> on the container \<open>[1, 2, 3]\<close>.
\<close>

lemma resize_limited_vector_reserve_throws:
  assumes "vec s = None" and "N < count" and "sz s < count" and "count \<le> max_size"
    and "vector_max_size < count"
  shows "resize_limited N max_size vector_max_size count dflt s
     = Inl (Throws length_error (s\<lparr>vec := Some v_empty\<rparr>))"
  using assms
  by (simp add: resize_limited_def reserve_limited_def spillover_limited_def
      vec_reserve_limited_def)

lemma resize_limited_vector_reserve_throws_example:
  "resize_limited 8 9223372036854775807 1152921504606846975 4611686018427387904 (0 :: int)
       \<lparr>arr = [Some 1, Some 2, Some 3, None, None, None, None, None],
        vec = None, sz = 3, constructed = 3, destructed = 0\<rparr>
     = Inl (Throws length_error
         \<lparr>arr = [Some 1, Some 2, Some 3, None, None, None, None, None],
          vec = Some \<lparr>elems = [], cap = 0\<rparr>, sz = 3, constructed = 3, destructed = 0\<rparr>)"
  using resize_limited_vector_reserve_throws [where N = 8 and count = 4611686018427387904
      and max_size = 9223372036854775807 and vector_max_size = 1152921504606846975
      and dflt = "0 :: int"
      and s = "\<lparr>arr = [Some 1, Some 2, Some 3, None, None, None, None, None],
        vec = None, sz = 3, constructed = 3, destructed = 0\<rparr>"]
  by (simp add: v_empty_def)

section \<open>Storage modes\<close>

text \<open>Pushing onto a well-formed container.\<close>

lemma wf_SmallVector: "wf N (SmallVector N)"
  by (simp add: wf_def SmallVector_def)

lemma SmallVector_simps [simp]:
  "sz (SmallVector N) = 0" "vec (SmallVector N) = None" "arr (SmallVector N) = replicate N None"
  "to_list (SmallVector N) = []"
  by (simp_all add: SmallVector_def to_list_def)

lemma push_back_all_wf:
  assumes "wf N s"
  shows "\<exists>s'. push_back_all N xs s = Inr s' \<and> wf N s' \<and> to_list s' = to_list s @ xs
     \<and> sz s' = sz s + length xs
     \<and> (vec s' = None \<longleftrightarrow> vec s = None \<and> sz s + length xs \<le> N)"
  using assms
proof (induction xs arbitrary: s)
  case Nil
  then show ?case by (cases "vec s") (auto simp: wf_def)
next
  case (Cons x xs)
  from push_back_wf [OF Cons.prems, of x] obtain s1 where
    s1: "push_back N x s = Inr s1" "wf N s1" "to_list s1 = to_list s @ [x]"
      "sz s1 = Suc (sz s)" "vec s1 = None \<longleftrightarrow> vec s = None \<and> sz s < N"
    by (elim exE conjE) (rule that; assumption)
  from Cons.IH [OF s1(2)] obtain s' where
    s': "push_back_all N xs s1 = Inr s'" "wf N s'" "to_list s' = to_list s1 @ xs"
      "sz s' = sz s1 + length xs" "vec s' = None \<longleftrightarrow> vec s1 = None \<and> sz s1 + length xs \<le> N"
    by (elim exE conjE) (rule that; assumption)
  show ?case using s1 s' by auto
qed

text \<open>No member function that returns leaves the spilled mode.\<close>

lemma for_each_keeps:
  assumes "\<And>i s s'. P s \<Longrightarrow> body i s = Inr s' \<Longrightarrow> P s'"
    and "P s" and "for_each js body s = Inr s'"
  shows "P s'"
  using assms(2,3)
proof (induction js arbitrary: s)
  case Nil
  then show ?case by simp
next
  case (Cons j js)
  from Cons.prems(2) obtain s1 where "body j s = Inr s1" "for_each js body s1 = Inr s'"
    by (auto simp: and_then_eq_Inr)
  with Cons.IH [of s1] assms(1) [OF Cons.prems(1)] show ?case by simp
qed

lemma construct_at_vec: "construct_at i x s = Inr s' \<Longrightarrow> vec s' = vec s"
  by (auto simp: construct_at_def split: if_splits)

lemma destroy_at_vec: "destroy_at i s = Inr s' \<Longrightarrow> vec s' = vec s"
  by (auto simp: destroy_at_def split: if_splits)

lemma move_slot_vec:
  assumes "move_slot i j s = Inr s'"
  shows "vec s' = vec s"
proof -
  from assms obtain x s1 where "construct_at j x s = Inr s1" "destroy_at i s1 = Inr s'"
    by (auto simp: move_slot_def and_then_eq_Inr)
  then show ?thesis using construct_at_vec destroy_at_vec by metis
qed

lemma vec_reserve_spilled: "vec_reserve n s = Inr s' \<Longrightarrow> vec s' \<noteq> None"
  by (auto simp: vec_reserve_def split: option.splits)

lemma vec_push_back_spilled: "vec_push_back x s = Inr s' \<Longrightarrow> vec s' \<noteq> None"
  by (auto simp: vec_push_back_def split: option.splits)

lemma vec_insert_spilled: "vec_insert i x s = Inr s' \<Longrightarrow> vec s' \<noteq> None"
  by (auto simp: vec_insert_def split: option.splits if_splits)

lemma vec_erase_spilled: "vec_erase i s = Inr s' \<Longrightarrow> vec s' \<noteq> None"
  by (auto simp: vec_erase_def split: option.splits if_splits)

lemma vec_erase_range_spilled: "vec_erase_range i j s = Inr s' \<Longrightarrow> vec s' \<noteq> None"
  by (auto simp: vec_erase_range_def split: option.splits if_splits)

lemma vec_clear_spilled: "vec_clear s = Inr s' \<Longrightarrow> vec s' \<noteq> None"
  by (auto simp: vec_clear_def split: option.splits)

lemma vec_shrink_to_fit_spilled: "vec_shrink_to_fit s = Inr s' \<Longrightarrow> vec s' \<noteq> None"
  by (auto simp: vec_shrink_to_fit_def split: option.splits)

lemma push_back_spilled:
  assumes "is_vector s" and "push_back N x s = Inr s'"
  shows "is_vector s'"
  using assms
  by (auto simp: push_back_def is_vector_def and_then_eq_Inr dest: vec_push_back_spilled)

lemma reserve_spilled:
  assumes "is_vector s" and "reserve N n s = Inr s'"
  shows "is_vector s'"
  using assms
  by (auto simp: reserve_def is_vector_def split: if_splits dest: vec_reserve_spilled)

lemma clear_spilled:
  assumes "is_vector s" and "clear s = Inr s'"
  shows "is_vector s'"
  using assms
  by (auto simp: clear_def is_vector_def and_then_eq_Inr dest: vec_clear_spilled)

lemma insert_sv_spilled:
  assumes "is_vector s" and "insert_sv N idx x s = Inr (s', p)"
  shows "is_vector s'"
  using assms
  by (auto simp: insert_sv_def Let_def is_vector_def and_then_eq_Inr dest: vec_insert_spilled)

lemma erase_spilled:
  assumes "is_vector s" and "erase idx s = Inr (s', p)"
  shows "is_vector s'"
  using assms
  by (auto simp: erase_def is_vector_def and_then_eq_Inr dest: vec_erase_spilled)

lemma erase_range_spilled:
  assumes "is_vector s" and "erase_range i j s = Inr (s', p)"
  shows "is_vector s'"
  using assms
  by (auto simp: erase_range_def is_vector_def and_then_eq_Inr dest: vec_erase_range_spilled)

lemma shrink_to_fit_spilled:
  assumes "is_vector s" and "shrink_to_fit s = Inr s'"
  shows "is_vector s'"
  using assms
  by (auto simp: shrink_to_fit_def is_vector_def dest: vec_shrink_to_fit_spilled)

lemma resize_value_spilled:
  assumes "is_vector s" and "resize_value N M n x s = Inr s'"
  shows "is_vector s'"
proof -
  have loop: "\<And>t t' js. is_vector t \<Longrightarrow> for_each js (\<lambda>i. push_back N x) t = Inr t' \<Longrightarrow> is_vector t'"
    by (rule for_each_keeps [where P = is_vector]) (auto intro: push_back_spilled)
  show ?thesis
    using assms
    by (auto simp: resize_value_def and_then_eq_Inr split: if_splits
        dest: erase_range_spilled reserve_spilled loop)
qed

lemma resize_spilled:
  assumes "is_vector s" and "resize N M n d s = Inr s'"
  shows "is_vector s'"
proof -
  have "emplace_back N d = push_back N d"
    by (rule ext) (rule emplace_back_eq)
  then have "resize N M n d s = resize_value N M n d s"
    by (simp add: resize_def resize_value_def)
  with assms resize_value_spilled show ?thesis by metis
qed

lemma on_object_keeps:
  assumes "\<forall>s s'. is_vector s \<longrightarrow> f s = Inr s' \<longrightarrow> is_vector s'"
    and "is_vector (st q)" and "on_object p f st = Inr st'"
  shows "is_vector (st' q)"
  using assms
  by (cases "f (st p)") (auto simp: on_object_def split: failure.splits)

lemma on_object_push_back_keeps:
  assumes "is_vector (st q)" and "on_object p (push_back N x) st = Inr st'"
  shows "is_vector (st' q)"
  using on_object_keeps [of "push_back N x" st q p st'] push_back_spilled [of _ N x] assms
  by blast

lemma on_object_reserve_keeps:
  assumes "is_vector (st q)" and "on_object p (reserve N n) st = Inr st'"
  shows "is_vector (st' q)"
  using on_object_keeps [of "reserve N n" st q p st'] reserve_spilled [of _ N n] assms
  by blast

lemma on_object_clear_keeps:
  assumes "is_vector (st q)" and "on_object p clear st = Inr st'"
  shows "is_vector (st' q)"
  using on_object_keeps [of clear st q p st'] clear_spilled assms
  by blast

lemma copy_element_keeps:
  assumes "is_vector (st q)" and "copy_element N this other i st = Inr st'"
  shows "is_vector (st' q)"
proof -
  from assms(2) obtain x where "on_object this (push_back N x) st = Inr st'"
    by (auto simp: copy_element_def and_then_eq_Inr)
  with assms(1) show ?thesis by (rule on_object_push_back_keeps)
qed

lemma copy_loop_keeps:
  assumes "is_vector (st q)" and "for_each js (copy_element N this other) st = Inr st'"
  shows "is_vector (st' q)"
  using assms
proof (induction js arbitrary: st)
  case Nil
  then show ?case by simp
next
  case (Cons j js)
  from Cons.prems(2) obtain st1 where
    1: "copy_element N this other j st = Inr st1"
    and 2: "for_each js (copy_element N this other) st1 = Inr st'"
    by (auto simp: and_then_eq_Inr)
  from copy_element_keeps [OF Cons.prems(1) 1] have "is_vector (st1 q)" .
  from Cons.IH [OF this 2] show ?case .
qed

lemma append_copy_keeps:
  assumes "is_vector (st q)" and "append_copy N this other st = Inr st'"
  shows "is_vector (st' q)"
proof (cases "sz (st other) = 0")
  case True
  then show ?thesis using assms by (simp add: append_copy_def)
next
  case False
  with assms(2) obtain st1 where
    1: "on_object this (reserve N (sz (st this) + sz (st other))) st = Inr st1"
    and 2: "for_each [0 ..< sz (st1 other)] (copy_element N this other) st1 = Inr st'"
    by (auto simp: append_copy_def and_then_eq_Inr)
  from on_object_reserve_keeps [OF assms(1) 1] have "is_vector (st1 q)" .
  from copy_loop_keeps [OF this 2] show ?thesis .
qed

lemma append_move_keeps:
  assumes "is_vector (st q)" and "append_move N this other st = Inr st'"
  shows "is_vector (st' q)"
proof (cases "this = other \<or> sz (st other) = 0")
  case True
  then show ?thesis using assms by (auto simp: append_move_def split: if_splits)
next
  case False
  with assms(2) obtain st1 st2 where
    1: "on_object this (reserve N (sz (st this) + sz (st other))) st = Inr st1"
    and 2: "for_each [0 ..< sz (st1 other)] (copy_element N this other) st1 = Inr st2"
    and 3: "on_object other clear st2 = Inr st'"
    by (auto simp: append_move_def and_then_eq_Inr)
  from on_object_reserve_keeps [OF assms(1) 1] have "is_vector (st1 q)" .
  from copy_loop_keeps [OF this 2] have "is_vector (st2 q)" .
  from on_object_clear_keeps [OF this 3] show ?thesis .
qed

lemma object_of_Inr: "object_of p r = Inr s \<longleftrightarrow> (\<exists>st. r = Inr st \<and> s = st p)"
  by (cases r) (auto simp: object_of_def split: failure.splits)

lemma call_spilled:
  assumes "is_vector s" and "call N M d c s = Inr s'"
  shows "is_vector s'"
proof (cases c)
  case (Push_back x)
  then show ?thesis using assms push_back_spilled by auto
next
  case (Emplace_back x)
  then show ?thesis using assms push_back_spilled by (auto simp: emplace_back_eq)
next
  case (Insert i x)
  then show ?thesis using assms insert_sv_spilled by (fastforce simp: and_then_eq_Inr)
next
  case (Emplace i x)
  then show ?thesis using assms insert_sv_spilled
    by (fastforce simp: and_then_eq_Inr emplace_eq)
next
  case (Erase i)
  then show ?thesis using assms erase_spilled by (fastforce simp: and_then_eq_Inr)
next
  case (Erase_range i j)
  then show ?thesis using assms erase_range_spilled by (fastforce simp: and_then_eq_Inr)
next
  case Pop_back
  then show ?thesis using assms erase_spilled
    by (fastforce simp: pop_back_def and_then_eq_Inr)
next
  case Clear
  then show ?thesis using assms clear_spilled by auto
next
  case (Reserve n)
  then show ?thesis using assms reserve_spilled by auto
next
  case Shrink_to_fit
  then show ?thesis using assms shrink_to_fit_spilled by auto
next
  case (Resize n)
  then show ?thesis using assms resize_spilled by auto
next
  case (Resize_value n x)
  then show ?thesis using assms resize_value_spilled by auto
next
  case (Append_copy other)
  with assms(2) obtain st where st: "append_copy N 0 1 (two_objects s other) = Inr st" "s' = st 0"
    by (auto simp: object_of_Inr)
  have "is_vector (two_objects s other 0)" using assms(1) by (simp add: two_objects_def)
  from append_copy_keeps [OF this st(1)] st(2) show ?thesis by simp
next
  case (Append_move other)
  with assms(2) obtain st where st: "append_move N 0 1 (two_objects s other) = Inr st" "s' = st 0"
    by (auto simp: object_of_Inr)
  have "is_vector (two_objects s other 0)" using assms(1) by (simp add: two_objects_def)
  from append_move_keeps [OF this st(1)] st(2) show ?thesis by simp
qed

lemma run_spilled:
  assumes "is_vector s" and "run N M d cs s = Inr s'"
  shows "is_vector s'"
  using assms
proof (induction cs arbitrary: s)
  case Nil
  then show ?case by simp
next
  case (Cons c cs)
  from Cons.prems(2) obtain s1 where "call N M d c s = Inr s1" "run N M d cs s1 = Inr s'"
    by (auto simp: and_then_eq_Inr)
  with Cons.IH [of s1] call_spilled [OF Cons.prems(1)] show ?case by simp
qed

text \<open>
  Claim C3, amended. After any sequence of \<^verbatim>\<open>push_back\<close> calls on a default-constructed
  container of inline capacity \<open>N\<close>, the container is in inline mode exactly if its length is
  at most \<open>N\<close> (so the first push that makes the length exceed \<open>N\<close> switches it to spilled
  mode), and \<^verbatim>\<open>is_array()\<close> and \<^verbatim>\<open>is_vector()\<close> say so. A spilled container stays spilled
  under every sequence of calls of \<^verbatim>\<open>push_back\<close>, \<^verbatim>\<open>emplace_back\<close>, \<^verbatim>\<open>insert\<close>, \<^verbatim>\<open>emplace\<close>,
  \<^verbatim>\<open>erase\<close>, \<^verbatim>\<open>pop_back\<close>, \<^verbatim>\<open>clear\<close>, \<^verbatim>\<open>reserve\<close>, \<^verbatim>\<open>shrink_to_fit\<close>, \<^verbatim>\<open>resize\<close> and
  \<^verbatim>\<open>append\<close> on it. (\<^verbatim>\<open>swap\<close>, which exchanges the storage of two containers, is not among
  them.)
\<close>

theorem mode_transition:
  "(\<exists>s. push_back_all N xs (SmallVector N) = Inr s \<and> sz s = length xs
        \<and> (is_array s \<longleftrightarrow> length xs \<le> N) \<and> (is_vector s \<longleftrightarrow> N < length xs))
   \<and> (is_vector t \<and> run N max_size dflt cs t = Inr t' \<longrightarrow> is_vector t')"
proof -
  have "\<exists>s. push_back_all N xs (SmallVector N) = Inr s \<and> sz s = length xs
        \<and> (is_array s \<longleftrightarrow> length xs \<le> N) \<and> (is_vector s \<longleftrightarrow> N < length xs)"
    using push_back_all_wf [OF wf_SmallVector, of N xs]
    by (auto simp: is_array_def is_vector_def)
  moreover have "is_vector t \<and> run N max_size dflt cs t = Inr t' \<longrightarrow> is_vector t'"
    using run_spilled [of t N max_size dflt cs t'] by simp
  ultimately show ?thesis by (rule conjI)
qed

text \<open>
  Three pushes onto a container of inline capacity 2 spill it; it stays spilled under
  \<^verbatim>\<open>pop_back\<close>, \<^verbatim>\<open>clear\<close>, \<^verbatim>\<open>shrink_to_fit\<close> and a further \<^verbatim>\<open>push_back\<close>.
\<close>

theorem mode_transition_witness:
  "push_back_all 2 [1, 2, 3 :: int] (SmallVector 2)
     = Inr \<lparr>arr = [None, None], vec = Some \<lparr>elems = [1, 2, 3], cap = 3\<rparr>, sz = 3,
            constructed = 5, destructed = 2\<rparr>
   \<and> is_vector \<lparr>arr = [None, None], vec = Some \<lparr>elems = [1, 2, 3 :: int], cap = 3\<rparr>, sz = 3,
            constructed = 5, destructed = 2\<rparr>
   \<and> run 2 100 0 [Pop_back, Clear, Shrink_to_fit, Push_back 7]
        \<lparr>arr = [None, None], vec = Some \<lparr>elems = [1, 2, 3 :: int], cap = 3\<rparr>, sz = 3,
            constructed = 5, destructed = 2\<rparr>
     = Inr \<lparr>arr = [None, None], vec = Some \<lparr>elems = [7], cap = 1\<rparr>, sz = 1,
            constructed = 6, destructed = 5\<rparr>
   \<and> is_vector \<lparr>arr = [None, None], vec = Some \<lparr>elems = [7 :: int], cap = 1\<rparr>, sz = 1,
            constructed = 6, destructed = 5\<rparr>"
proof -
  let ?t = "\<lparr>arr = [None, None], vec = Some \<lparr>elems = [1, 2, 3 :: int], cap = 3\<rparr>, sz = 3,
            constructed = 5, destructed = 2\<rparr>"
  let ?t' = "\<lparr>arr = [None, None], vec = Some \<lparr>elems = [7 :: int], cap = 1\<rparr>, sz = 1,
            constructed = 6, destructed = 5\<rparr>"
  have 1: "push_back_all 2 [1, 2, 3 :: int] (SmallVector 2) = Inr ?t" by code_simp
  have 2: "is_vector ?t" by code_simp
  have 3: "run 2 100 0 [Pop_back, Clear, Shrink_to_fit, Push_back 7] ?t = Inr ?t'" by code_simp
  from mode_transition [of 2 "[1, 2, 3 :: int]" ?t 100 0
      "[Pop_back, Clear, Shrink_to_fit, Push_back 7]" ?t'] 2 3
  have "is_vector ?t'" by blast
  with 1 2 3 show ?thesis by (intro conjI)
qed

text \<open>
  The claim as stated, for any subsequent operation, fails for \<^verbatim>\<open>swap\<close>: the spilled
  container of the three pushes, swapped with an empty inline one, is in inline mode.
\<close>

theorem swap_leaves_spilled_mode_counterexample:
  "push_back_all 2 [1, 2, 3 :: int] (SmallVector 2)
     = Inr \<lparr>arr = [None, None], vec = Some \<lparr>elems = [1, 2, 3], cap = 3\<rparr>, sz = 3,
            constructed = 5, destructed = 2\<rparr>
   \<and> is_vector \<lparr>arr = [None, None], vec = Some \<lparr>elems = [1, 2, 3 :: int], cap = 3\<rparr>, sz = 3,
            constructed = 5, destructed = 2\<rparr>
   \<and> is_array (swap_sv 0 1 (two_objects
        \<lparr>arr = [None, None], vec = Some \<lparr>elems = [1, 2, 3 :: int], cap = 3\<rparr>, sz = 3,
         constructed = 5, destructed = 2\<rparr> (SmallVector 2)) 0)"
  by code_simp

section \<open>Destruction\<close>

text \<open>Clearing and destroying a well-formed container.\<close>

lemma destroy_loop:
  assumes "k \<le> length (arr s)" and "list_all (\<lambda>x. x \<noteq> None) (take k (arr s))"
  shows "for_each (rev [0 ..< k]) destroy_at s =
     Inr (s\<lparr>arr := replicate k None @ drop k (arr s), destructed := destructed s + k\<rparr>)"
  using assms
proof (induction k arbitrary: s)
  case 0
  then show ?case by simp
next
  case (Suc k)
  then have k: "k < length (arr s)" and here: "arr s ! k \<noteq> None"
    and live: "list_all (\<lambda>x. x \<noteq> None) (take k (arr s))"
    by (simp_all add: take_Suc_conv_app_nth)
  let ?s1 = "s\<lparr>arr := (arr s)[k := None], destructed := destructed s + 1\<rparr>"
  have 1: "destroy_at k s = Inr ?s1"
    using k here by (simp add: destroy_at_def)
  have "k \<le> length (arr ?s1)" and "list_all (\<lambda>x. x \<noteq> None) (take k (arr ?s1))"
    using k live by simp_all
  from Suc.IH [OF this] have 2: "for_each (rev [0 ..< k]) destroy_at ?s1 =
     Inr (?s1\<lparr>arr := replicate k None @ drop k (arr ?s1), destructed := destructed ?s1 + k\<rparr>)" .
  have 3: "replicate k None @ drop k ((arr s)[k := None])
      = replicate (Suc k) None @ drop (Suc k) (arr s)"
    using k by (simp add: drop_update_cancel replicate_app_Cons_same
        upd_conv_take_nth_drop drop_Suc_Cons)
  show ?case
    using 1 2 3 by simp
qed

lemma clear_wf:
  assumes "wf N s"
  shows "\<exists>s'. clear s = Inr s' \<and> wf N s' \<and> sz s' = 0 \<and> to_list s' = []
     \<and> (vec s' = None \<longleftrightarrow> vec s = None) \<and> arr s' = replicate N None
     \<and> constructed s' = constructed s \<and> destructed s' = destructed s + sz s"
proof (cases "vec s")
  case None
  note d = wf_inlineD [OF assms None]
  have "for_each (rev [0 ..< sz s]) destroy_at s =
     Inr (s\<lparr>arr := replicate (sz s) None @ drop (sz s) (arr s),
            destructed := destructed s + sz s\<rparr>)"
    using d by (intro destroy_loop) simp_all
  moreover have "replicate (sz s) None @ drop (sz s) (arr s) = replicate N None"
    using all_None_replicate [OF d(4)] d(1,2)
    by (simp add: replicate_add [symmetric])
  ultimately show ?thesis
    using None by (simp add: clear_def wf_def to_list_def)
next
  case (Some v)
  then show ?thesis
    using assms wf_spilledD [OF assms Some]
    by (simp add: clear_def vec_clear_def wf_def to_list_def)
qed

lemma live_objects_wf: "wf N s \<Longrightarrow> live_objects s = sz s"
proof (cases "vec s")
  case None
  assume w: "wf N s"
  note d = wf_inlineD [OF w None]
  have a: "filter (\<lambda>x. x \<noteq> None) (take (sz s) (arr s)) = take (sz s) (arr s)"
    using d(3) by (simp add: list_all_iff)
  have b: "filter (\<lambda>x. x \<noteq> None) (drop (sz s) (arr s)) = []"
    using d(4) by (simp add: list_all_iff)
  have "filter (\<lambda>x. x \<noteq> None) (arr s)
      = filter (\<lambda>x. x \<noteq> None) (take (sz s) (arr s) @ drop (sz s) (arr s))"
    by simp
  also have "\<dots> = take (sz s) (arr s)"
    using a b by (simp only: filter_append) simp
  finally show ?thesis using None d(1,2) by (simp add: live_objects_def)
next
  case (Some v)
  assume w: "wf N s"
  from wf_spilledD [OF w Some] Some show ?thesis by (simp add: live_objects_def)
qed

lemma destructor_wf:
  assumes "wf N s"
  shows "\<exists>s'. destructor s = Inr s' \<and> live_objects s' = 0
     \<and> constructed s' = constructed s \<and> destructed s' = destructed s + sz s"
proof -
  from clear_wf [OF assms] obtain s1 where
    s1: "clear s = Inr s1" "wf N s1" "sz s1 = 0" "to_list s1 = []" "arr s1 = replicate N None"
      "constructed s1 = constructed s" "destructed s1 = destructed s + sz s"
    by (elim exE conjE) (rule that; assumption)
  show ?thesis
  proof (cases "vec s1")
    case None
    then show ?thesis using s1 by (simp add: destructor_def destroy_members_def live_objects_def)
  next
    case (Some v)
    with s1 have "elems v = []" by (simp add: to_list_def)
    with Some show ?thesis using s1
      by (simp add: destructor_def destroy_members_def live_objects_def)
  qed
qed

lemma emplace_loop_wf:
  assumes "wf N s"
  shows "\<exists>s'. for_each js (\<lambda>i. emplace_back N x) s = Inr s' \<and> wf N s'
     \<and> sz s' = sz s + length js \<and> to_list s' = to_list s @ replicate (length js) x
     \<and> constructed s' + destructed s = constructed s + destructed s' + length js"
  using assms
proof (induction js arbitrary: s)
  case Nil
  then show ?case by simp
next
  case (Cons j js)
  from push_back_wf [OF Cons.prems, of x] obtain s1 where
    s1: "push_back N x s = Inr s1" "wf N s1" "to_list s1 = to_list s @ [x]"
      "sz s1 = Suc (sz s)" "constructed s1 + destructed s = Suc (constructed s + destructed s1)"
    by (elim exE conjE) (rule that; assumption)
  from Cons.IH [OF s1(2)] obtain s' where
    s': "for_each js (\<lambda>i. emplace_back N x) s1 = Inr s'" "wf N s'"
      "sz s' = sz s1 + length js" "to_list s' = to_list s1 @ replicate (length js) x"
      "constructed s' + destructed s1 = constructed s1 + destructed s' + length js"
    by (elim exE conjE) (rule that; assumption)
  have "emplace_back N x s = Inr s1"
    using s1(1) by (simp add: emplace_back_eq)
  then show ?case
    using s1 s' by (simp add: replicate_app_Cons_same)
qed

lemma SmallVector_counters [simp]:
  "constructed (SmallVector N) = 0" "destructed (SmallVector N) = 0"
  by (simp_all add: SmallVector_def)

lemma SmallVector_count_wf:
  "\<exists>s. SmallVector_count N k x = Inr s \<and> wf N s \<and> sz s = k \<and> to_list s = replicate k x
     \<and> constructed s = destructed s + k"
proof -
  have "\<exists>s1 :: 'a small_vector. reserve N k (SmallVector N) = Inr s1 \<and> wf N s1
      \<and> to_list s1 = [] \<and> sz s1 = 0 \<and> constructed s1 = destructed s1"
    using reserve_wf [OF wf_SmallVector, of N k]
    apply simp
    apply (elim exE conjE)
    apply (rule exI)
    apply (intro conjI; assumption)
    done
  then obtain s1 :: "'a small_vector" where
    s1: "reserve N k (SmallVector N) = Inr s1" "wf N s1" "to_list s1 = []" "sz s1 = 0"
      "constructed s1 = destructed s1"
    by (elim exE conjE) (rule that; assumption)
  have "\<exists>s'. for_each [0 ..< k] (\<lambda>i. emplace_back N x) s1 = Inr s' \<and> wf N s'
      \<and> sz s' = k \<and> to_list s' = replicate k x \<and> constructed s' = destructed s' + k"
    using emplace_loop_wf [OF s1(2), of "[0 ..< k]" x] s1(3,4,5) by auto
  then show ?thesis
    using s1(1) by (simp add: SmallVector_count_def)
qed

lemma construct_destroy_balanced:
  "\<exists>s s'. SmallVector_count N k x = Inr s \<and> sz s = k \<and> destructor s = Inr s'
     \<and> live_objects s' = 0 \<and> constructed s' = destructed s'"
proof -
  from SmallVector_count_wf [of N k x] obtain s where
    s: "SmallVector_count N k x = Inr s" "wf N s" "sz s = k" "constructed s = destructed s + k"
    by (elim exE conjE) (rule that; assumption)
  from destructor_wf [OF s(2)] s show ?thesis by auto
qed

text \<open>
  Claim C2. Destroying a container destructs every live element, in whichever storage; a
  container constructed with \<open>k\<close> elements and then destroyed has made as many destructor
  calls as constructor calls. The destructor that calls \<^verbatim>\<open>clear()\<close> does so
  (\<open>construct_destroy_balanced\<close> above). The destructor of \<^verbatim>\<open>src/vec.hpp\<close> has an empty
  body. On the container of five elements of inline capacity 8, built by the count
  constructor of that file, it leaves the five elements alive in the inline buffer: of the
  ten objects constructed (five temporaries and five elements) only the five temporaries
  are destructed. A spilled container (three elements, inline capacity 2) is destructed
  with its vector.
\<close>

theorem destructor_vec_hpp_leaks:
  "SmallVector_count_vec_hpp 8 5 ()
     = Inr \<lparr>arr = [Some (), Some (), Some (), Some (), Some (), None, None, None],
            vec = None, sz = 5, constructed = 10, destructed = 5\<rparr>
   \<and> destructor_vec_hpp
       \<lparr>arr = [Some (), Some (), Some (), Some (), Some (), None, None, None],
        vec = None, sz = 5, constructed = 10, destructed = 5\<rparr>
     = Inr \<lparr>arr = [Some (), Some (), Some (), Some (), Some (), None, None, None],
            vec = None, sz = 5, constructed = 10, destructed = 5\<rparr>
   \<and> live_objects
       \<lparr>arr = [Some (), Some (), Some (), Some (), Some (), None, None, None],
        vec = None, sz = 5, constructed = 10, destructed = 5\<rparr> = 5
   \<and> and_then (SmallVector_count 8 5 ()) destructor
     = Inr \<lparr>arr = [None, None, None, None, None, None, None, None],
            vec = None, sz = 0, constructed = 5, destructed = 5\<rparr>
   \<and> and_then (SmallVector_count_vec_hpp 2 3 ()) destructor_vec_hpp
     = Inr \<lparr>arr = [None, None], vec = None, sz = 3, constructed = 6, destructed = 6\<rparr>"
  by code_simp

section \<open>Appending\<close>

text \<open>Appending one container to another one.\<close>

lemma on_object_Inr:
  "f (st p) = Inr s \<Longrightarrow> on_object p f st = Inr (st(p := s))"
  by (simp add: on_object_def)

lemma copy_loop_distinct:
  assumes "this \<noteq> other" and "wf N (st this)" and "wf N' (st other)"
    and "m \<le> sz (st other)"
  shows "\<exists>s'. for_each [0 ..< m] (copy_element N this other) st = Inr (st(this := s'))
     \<and> wf N s' \<and> to_list s' = to_list (st this) @ take m (to_list (st other))"
  using assms(4)
proof (induction m)
  case 0
  show ?case using assms(2) by (intro exI [of _ "st this"]) simp
next
  case (Suc m)
  from Suc.IH [OF Suc_leD [OF Suc.prems]] obtain s1 where
    run: "for_each [0 ..< m] (copy_element N this other) st = Inr (st(this := s1))"
    and w: "wf N s1"
    and l: "to_list s1 = to_list (st this) @ take m (to_list (st other))"
    by (elim exE conjE) (rule that; assumption)
  let ?st1 = "st(this := s1)"
  have m: "m < sz (st other)" using Suc.prems by simp
  have rd: "read_object other m ?st1 = Inr (to_list (st other) ! m)"
    using assms(1) index_wf [OF assms(3) m] by (simp add: read_object_def)
  from push_back_wf [OF w, of "to_list (st other) ! m"] obtain s2 where
    s2: "push_back N (to_list (st other) ! m) s1 = Inr s2" "wf N s2"
      "to_list s2 = to_list s1 @ [to_list (st other) ! m]"
    by (elim exE conjE) (rule that; assumption)
  have step: "copy_element N this other m ?st1 = Inr (st(this := s2))"
    using rd s2(1) by (simp add: copy_element_def on_object_def)
  have "take (Suc m) (to_list (st other)) = take m (to_list (st other)) @ [to_list (st other) ! m]"
    using m length_to_list [OF assms(3)] by (simp add: take_Suc_conv_app_nth)
  then have "to_list s2 = to_list (st this) @ take (Suc m) (to_list (st other))"
    using s2(3) l by simp
  moreover have "for_each [0 ..< Suc m] (copy_element N this other) st = Inr (st(this := s2))"
    using run step by (simp add: for_each_append)
  ultimately show ?case using s2(2) by blast
qed

lemma append_copy_distinct:
  assumes "this \<noteq> other" and "wf N (st this)" and "wf N' (st other)"
  shows "\<exists>s'. append_copy N this other st = Inr (st(this := s')) \<and> wf N s'
     \<and> to_list s' = to_list (st this) @ to_list (st other)"
proof (cases "sz (st other) = 0")
  case True
  then have "to_list (st other) = []"
    using length_to_list [OF assms(3)] by simp
  then show ?thesis
    using True assms(2) by (intro exI [of _ "st this"]) (simp add: append_copy_def)
next
  case False
  from reserve_wf [OF assms(2), of "sz (st this) + sz (st other)"] obtain s1 where
    s1: "reserve N (sz (st this) + sz (st other)) (st this) = Inr s1" "wf N s1"
      "to_list s1 = to_list (st this)"
    by (elim exE conjE) (rule that; assumption)
  let ?st1 = "st(this := s1)"
  have 1: "on_object this (reserve N (sz (st this) + sz (st other))) st = Inr ?st1"
    using s1(1) by (rule on_object_Inr)
  have "wf N (?st1 this)" and "wf N' (?st1 other)" and "sz (?st1 other) \<le> sz (?st1 other)"
    using s1(2) assms(1,3) by simp_all
  from copy_loop_distinct [OF assms(1) this] obtain s' where
    s': "for_each [0 ..< sz (?st1 other)] (copy_element N this other) ?st1 = Inr (?st1(this := s'))"
      "wf N s'" "to_list s' = to_list (?st1 this) @ take (sz (?st1 other)) (to_list (?st1 other))"
    by (elim exE conjE) (rule that; assumption)
  have "to_list s' = to_list (st this) @ to_list (st other)"
    using s'(3) s1(3) assms(1) length_to_list [OF assms(3)] by simp
  moreover have "append_copy N this other st = Inr (st(this := s'))"
    using False 1 s'(1) by (simp add: append_copy_def)
  ultimately show ?thesis using s'(2) by blast
qed

lemma append_move_distinct:
  assumes "this \<noteq> other" and "wf N (st this)" and "wf N' (st other)"
  shows "\<exists>s' o'. append_move N this other st = Inr (st(this := s', other := o')) \<and> wf N s'
     \<and> to_list s' = to_list (st this) @ to_list (st other)
     \<and> wf N' o' \<and> sz o' = 0 \<and> to_list o' = []"
proof (cases "sz (st other) = 0")
  case True
  then have "to_list (st other) = []"
    using length_to_list [OF assms(3)] by simp
  then show ?thesis
    using True assms
    by (intro exI [of _ "st this"] exI [of _ "st other"]) (simp add: append_move_def)
next
  case False
  from reserve_wf [OF assms(2), of "sz (st this) + sz (st other)"] obtain s1 where
    s1: "reserve N (sz (st this) + sz (st other)) (st this) = Inr s1" "wf N s1"
      "to_list s1 = to_list (st this)"
    by (elim exE conjE) (rule that; assumption)
  let ?st1 = "st(this := s1)"
  have 1: "on_object this (reserve N (sz (st this) + sz (st other))) st = Inr ?st1"
    using s1(1) by (rule on_object_Inr)
  have "wf N (?st1 this)" and "wf N' (?st1 other)" and "sz (?st1 other) \<le> sz (?st1 other)"
    using s1(2) assms(1,3) by simp_all
  from copy_loop_distinct [OF assms(1) this] obtain s' where
    s': "for_each [0 ..< sz (?st1 other)] (copy_element N this other) ?st1 = Inr (?st1(this := s'))"
      "wf N s'" "to_list s' = to_list (?st1 this) @ take (sz (?st1 other)) (to_list (?st1 other))"
    by (elim exE conjE) (rule that; assumption)
  have l: "to_list s' = to_list (st this) @ to_list (st other)"
    using s'(3) s1(3) assms(1) length_to_list [OF assms(3)] by simp
  from clear_wf [OF assms(3)] obtain o' where
    o': "clear (st other) = Inr o'" "wf N' o'" "sz o' = 0" "to_list o' = []"
    by (elim exE conjE) (rule that; assumption)
  let ?st2 = "st(this := s')"
  have 2: "on_object other clear ?st2 = Inr (?st2(other := o'))"
    using o'(1) assms(1) by (intro on_object_Inr) simp
  have "append_move N this other st = Inr (st(this := s', other := o'))"
    using False assms(1) 1 s'(1) 2 by (simp add: append_move_def)
  then show ?thesis using s'(2) l o' by blast
qed

text \<open>
  Claim C5. For two distinct containers, \<^verbatim>\<open>append\<close> of the moved second one onto the first
  leaves the first holding its elements followed by those of the second, in order, and the
  second with length 0; \<^verbatim>\<open>append\<close> of a copy gives the same concatenation and leaves the
  second as it was. No other object of the store changes.
\<close>

theorem append_distinct:
  assumes "this \<noteq> other" and "wf N (st this)" and "wf N' (st other)"
  shows "(\<exists>s' o'. append_move N this other st = Inr (st(this := s', other := o'))
            \<and> to_list s' = to_list (st this) @ to_list (st other)
            \<and> sz s' = sz (st this) + sz (st other)
            \<and> sz o' = 0 \<and> to_list o' = [])
     \<and> (\<exists>s'. append_copy N this other st = Inr (st(this := s'))
            \<and> to_list s' = to_list (st this) @ to_list (st other)
            \<and> sz s' = sz (st this) + sz (st other))"
proof -
  from append_move_distinct [OF assms] obtain s' o' where
    m: "append_move N this other st = Inr (st(this := s', other := o'))" "wf N s'"
      "to_list s' = to_list (st this) @ to_list (st other)" "sz o' = 0" "to_list o' = []"
    by (elim exE conjE) (rule that; assumption)
  from append_copy_distinct [OF assms] obtain s'' where
    c: "append_copy N this other st = Inr (st(this := s''))" "wf N s''"
      "to_list s'' = to_list (st this) @ to_list (st other)"
    by (elim exE conjE) (rule that; assumption)
  have "sz s' = sz (st this) + sz (st other)"
    using length_to_list [OF m(2)] m(3) length_to_list [OF assms(2)] length_to_list [OF assms(3)]
    by simp
  moreover have "sz s'' = sz (st this) + sz (st other)"
    using length_to_list [OF c(2)] c(3) length_to_list [OF assms(2)] length_to_list [OF assms(3)]
    by simp
  ultimately show ?thesis using m c by blast
qed

text \<open>
  \<^verbatim>\<open>append\<close> of the moved \<open>[5, 6, 7, 8]\<close> onto \<open>[1, 2, 3, 4]\<close>, at the addresses 1 and 0, and
  \<^verbatim>\<open>append\<close> of a copy of it.
\<close>

theorem append_distinct_witness:
  "(0 :: nat) \<noteq> 1
   \<and> wf 8 \<lparr>arr = [Some 1, Some 2, Some 3, Some (4 :: int), None, None, None, None],
           vec = None, sz = 4, constructed = 4, destructed = 0\<rparr>
   \<and> wf 8 \<lparr>arr = [Some 5, Some 6, Some 7, Some (8 :: int), None, None, None, None],
           vec = None, sz = 4, constructed = 4, destructed = 0\<rparr>
   \<and> object_of 0 (append_move 8 0 1 (two_objects
        \<lparr>arr = [Some 1, Some 2, Some 3, Some (4 :: int), None, None, None, None],
         vec = None, sz = 4, constructed = 4, destructed = 0\<rparr>
        \<lparr>arr = [Some 5, Some 6, Some 7, Some (8 :: int), None, None, None, None],
         vec = None, sz = 4, constructed = 4, destructed = 0\<rparr>))
     = Inr \<lparr>arr = [Some 1, Some 2, Some 3, Some 4, Some 5, Some 6, Some 7, Some 8],
            vec = None, sz = 8, constructed = 8, destructed = 0\<rparr>
   \<and> object_of 1 (append_move 8 0 1 (two_objects
        \<lparr>arr = [Some 1, Some 2, Some 3, Some (4 :: int), None, None, None, None],
         vec = None, sz = 4, constructed = 4, destructed = 0\<rparr>
        \<lparr>arr = [Some 5, Some 6, Some 7, Some (8 :: int), None, None, None, None],
         vec = None, sz = 4, constructed = 4, destructed = 0\<rparr>))
     = Inr \<lparr>arr = [None, None, None, None, None, None, None, None],
            vec = None, sz = 0, constructed = 4, destructed = 4\<rparr>
   \<and> object_of 0 (append_copy 8 0 1 (two_objects
        \<lparr>arr = [Some 1, Some 2, Some 3, Some (4 :: int), None, None, None, None],
         vec = None, sz = 4, constructed = 4, destructed = 0\<rparr>
        \<lparr>arr = [Some 5, Some 6, Some 7, Some (8 :: int), None, None, None, None],
         vec = None, sz = 4, constructed = 4, destructed = 0\<rparr>))
     = Inr \<lparr>arr = [Some 1, Some 2, Some 3, Some 4, Some 5, Some 6, Some 7, Some 8],
            vec = None, sz = 8, constructed = 8, destructed = 0\<rparr>
   \<and> object_of 1 (append_copy 8 0 1 (two_objects
        \<lparr>arr = [Some 1, Some 2, Some 3, Some (4 :: int), None, None, None, None],
         vec = None, sz = 4, constructed = 4, destructed = 0\<rparr>
        \<lparr>arr = [Some 5, Some 6, Some 7, Some (8 :: int), None, None, None, None],
         vec = None, sz = 4, constructed = 4, destructed = 0\<rparr>))
     = Inr \<lparr>arr = [Some 5, Some 6, Some 7, Some (8 :: int), None, None, None, None],
            vec = None, sz = 4, constructed = 4, destructed = 0\<rparr>"
proof -
  let ?y = "\<lparr>arr = [Some 1, Some 2, Some 3, Some (4 :: int), None, None, None, None],
           vec = None, sz = 4, constructed = 4, destructed = 0\<rparr>"
  let ?x = "\<lparr>arr = [Some 5, Some 6, Some 7, Some (8 :: int), None, None, None, None],
           vec = None, sz = 4, constructed = 4, destructed = 0\<rparr>"
  have d: "(0 :: nat) \<noteq> 1" by simp
  have wy: "wf 8 ?y" by (simp add: wf_def)
  have wx: "wf 8 ?x" by (simp add: wf_def)
  have wy': "wf 8 (two_objects ?y ?x 0)" using wy by (simp add: two_objects_def)
  have wx': "wf 8 (two_objects ?y ?x 1)" using wx by (simp add: two_objects_def)
  note t = append_distinct [OF d wy' wx']
  have m0: "object_of 0 (append_move 8 0 1 (two_objects ?y ?x))
     = Inr \<lparr>arr = [Some 1, Some 2, Some 3, Some 4, Some 5, Some 6, Some 7, Some 8],
            vec = None, sz = 8, constructed = 8, destructed = 0\<rparr>"
    by code_simp
  have m1: "object_of 1 (append_move 8 0 1 (two_objects ?y ?x))
     = Inr \<lparr>arr = [None, None, None, None, None, None, None, None],
            vec = None, sz = 0, constructed = 4, destructed = 4\<rparr>"
    by code_simp
  have c0: "object_of 0 (append_copy 8 0 1 (two_objects ?y ?x))
     = Inr \<lparr>arr = [Some 1, Some 2, Some 3, Some 4, Some 5, Some 6, Some 7, Some 8],
            vec = None, sz = 8, constructed = 8, destructed = 0\<rparr>"
    by code_simp
  have c1: "object_of 1 (append_copy 8 0 1 (two_objects ?y ?x)) = Inr ?x"
    by code_simp
  from t d wy wx m0 m1 c0 c1 show ?thesis by (intro conjI)
qed

text \<open>
  Claim C4. Appending a container to itself is a no-op, with the overload taking a copy
  and with the one taking a moved container. The second returns at once
  (\<^verbatim>\<open>if (this == &other) return;\<close>); the first has no such test: on the container
  \<open>[1, 2]\<close> of inline capacity 8 it appends the two elements again.
\<close>

theorem self_append_copy_doubles:
  "SmallVector_init 8 [1, 2 :: int]
     = Inr \<lparr>arr = [Some 1, Some 2, None, None, None, None, None, None],
            vec = None, sz = 2, constructed = 2, destructed = 0\<rparr>
   \<and> object_of 0 (append_copy 8 0 0 (two_objects
       \<lparr>arr = [Some 1, Some (2 :: int), None, None, None, None, None, None],
        vec = None, sz = 2, constructed = 2, destructed = 0\<rparr> (SmallVector 8)))
     = Inr \<lparr>arr = [Some 1, Some 2, Some 1, Some 2, None, None, None, None],
            vec = None, sz = 4, constructed = 4, destructed = 0\<rparr>
   \<and> object_of 0 (append_move 8 0 0 (two_objects
       \<lparr>arr = [Some 1, Some (2 :: int), None, None, None, None, None, None],
        vec = None, sz = 2, constructed = 2, destructed = 0\<rparr> (SmallVector 8)))
     = Inr \<lparr>arr = [Some 1, Some 2, None, None, None, None, None, None],
            vec = None, sz = 2, constructed = 2, destructed = 0\<rparr>"
  by code_simp

section \<open>Erasing a range in inline mode\<close>

text \<open>A counting loop that keeps an invariant.\<close>

lemma for_each_upt_invariant:
  assumes "I k s"
    and "\<And>j t. k \<le> j \<Longrightarrow> j < k + d \<Longrightarrow> I j t \<Longrightarrow> \<exists>t'. body j t = Inr t' \<and> I (Suc j) t'"
  shows "\<exists>s'. for_each [k ..< k + d] body s = Inr s' \<and> I (k + d) s'"
  using assms(2)
proof (induction d)
  case 0
  show ?case using assms(1) by simp
next
  case (Suc d)
  have "\<exists>s'. for_each [k ..< k + d] body s = Inr s' \<and> I (k + d) s'"
  proof (rule Suc.IH)
    fix j t
    assume "k \<le> j" and "j < k + d" and "I j t"
    then show "\<exists>t'. body j t = Inr t' \<and> I (Suc j) t'"
      using Suc.prems [of j t] by simp
  qed
  then obtain s1 where s1: "for_each [k ..< k + d] body s = Inr s1" "I (k + d) s1"
    by (elim exE conjE) (rule that; assumption)
  from Suc.prems [of "k + d" s1] s1(2) obtain t' where
    t': "body (k + d) s1 = Inr t'" "I (Suc (k + d)) t'"
    by auto
  have "for_each [k ..< k + Suc d] body s = Inr t'"
    using s1(1) t'(1) by (simp add: for_each_append)
  then show ?case using t'(2) by simp
qed

text \<open>The two loops of the range erase in inline mode.\<close>

lemma destroy_range:
  fixes s :: "'a small_vector"
  assumes "first_idx \<le> last_idx" and "last_idx \<le> length (arr s)"
    and "\<forall>p. first_idx \<le> p \<and> p < last_idx \<longrightarrow> arr s ! p \<noteq> None"
  shows "\<exists>s'. for_each [first_idx ..< last_idx] destroy_at s = Inr s'
     \<and> length (arr s') = length (arr s) \<and> vec s' = vec s \<and> sz s' = sz s
     \<and> (\<forall>p < length (arr s). arr s' ! p =
           (if first_idx \<le> p \<and> p < last_idx then None else arr s ! p))"
proof -
  define I where "I j t \<longleftrightarrow> length (arr t) = length (arr s) \<and> vec t = vec s \<and> sz t = sz s
     \<and> (\<forall>p < length (arr s). arr t ! p = (if first_idx \<le> p \<and> p < j then None else arr s ! p))"
    for j and t :: "'a small_vector"
  obtain d where d: "last_idx = first_idx + d"
    using assms(1) by (auto simp: le_iff_add)
  have "\<exists>s'. for_each [first_idx ..< first_idx + d] destroy_at s = Inr s' \<and> I (first_idx + d) s'"
  proof (rule for_each_upt_invariant)
    show "I first_idx s" by (auto simp: I_def)
  next
    fix j t
    assume j: "first_idx \<le> j" "j < first_idx + d" and inv: "I j t"
    have jl: "j < length (arr s)" using j d assms(2) by simp
    have "arr t ! j = arr s ! j" using inv jl by (simp add: I_def)
    then have live: "arr t ! j \<noteq> None" using assms(3) j d by simp
    have "destroy_at j t = Inr (t\<lparr>arr := (arr t)[j := None], destructed := destructed t + 1\<rparr>)"
      using inv jl live by (simp add: destroy_at_def I_def)
    moreover have "I (Suc j) (t\<lparr>arr := (arr t)[j := None], destructed := destructed t + 1\<rparr>)"
      using inv jl j by (auto simp: I_def nth_list_update)
    ultimately show "\<exists>t'. destroy_at j t = Inr t' \<and> I (Suc j) t'" by blast
  qed
  then show ?thesis unfolding I_def d .
qed

lemma shift_down:
  fixes s :: "'a small_vector"
  assumes "first_idx < last_idx" and "last_idx \<le> n" and "n \<le> length (arr s)"
    and "\<forall>p. last_idx \<le> p \<and> p < n \<longrightarrow> arr s ! p \<noteq> None"
    and "\<forall>p. first_idx \<le> p \<and> p < last_idx \<longrightarrow> arr s ! p = None"
  shows "\<exists>s'. for_each [last_idx ..< n]
        (\<lambda>i. move_slot i (sub_size i (last_idx - first_idx))) s = Inr s'
     \<and> length (arr s') = length (arr s) \<and> vec s' = vec s \<and> sz s' = sz s
     \<and> (\<forall>p < length (arr s). arr s' ! p =
           (if p < first_idx \<or> n \<le> p then arr s ! p
            else if p < first_idx + (n - last_idx) then arr s ! (p + (last_idx - first_idx))
            else None))"
proof -
  define diff where "diff = last_idx - first_idx"
  define I where "I j t \<longleftrightarrow> length (arr t) = length (arr s) \<and> vec t = vec s \<and> sz t = sz s
     \<and> (\<forall>p < length (arr s). arr t ! p =
           (if p < first_idx \<or> j \<le> p then arr s ! p
            else if p < first_idx + (j - last_idx) then arr s ! (p + diff)
            else None))"
    for j and t :: "'a small_vector"
  obtain d where d: "n = last_idx + d"
    using assms(2) by (auto simp: le_iff_add)
  have diff: "0 < diff" "diff \<le> last_idx" "first_idx + diff = last_idx"
    using assms(1) by (simp_all add: diff_def)
  have "\<exists>s'. for_each [last_idx ..< last_idx + d] (\<lambda>i. move_slot i (sub_size i diff)) s = Inr s'
     \<and> I (last_idx + d) s'"
  proof (rule for_each_upt_invariant)
    show "I last_idx s"
      using assms(5) by (auto simp: I_def)
  next
    fix j t
    assume j: "last_idx \<le> j" "j < last_idx + d" and inv: "I j t"
    have jl: "j < length (arr s)" using j d assms(3) by simp
    have len: "length (arr t) = length (arr s)" using inv by (simp add: I_def)
    have "arr t ! j = arr s ! j" using inv jl by (simp add: I_def)
    moreover have "arr s ! j \<noteq> None" using assms(4) j d by simp
    ultimately obtain x where x: "arr t ! j = Some x" "arr s ! j = Some x" by auto
    have sub: "sub_size j diff = j - diff" "j - diff < j" "first_idx \<le> j - diff"
      "j - diff = first_idx + (j - last_idx)"
      using diff j by (simp_all add: sub_size_def)
    let ?t' = "t\<lparr>arr := (arr t)[j - diff := Some x, j := None],
                 constructed := constructed t + 1, destructed := destructed t + 1\<rparr>"
    have "move_slot j (sub_size j diff) t = Inr ?t'"
      using x(1) jl len sub
      by (simp add: move_slot_def get_element_def construct_at_def destroy_at_def)
    moreover have "I (Suc j) ?t'"
      unfolding I_def
    proof (intro conjI allI impI)
      fix p assume p: "p < length (arr s)"
      have old: "arr t ! p =
           (if p < first_idx \<or> j \<le> p then arr s ! p
            else if p < first_idx + (j - last_idx) then arr s ! (p + diff)
            else None)"
        using inv p by (simp add: I_def)
      show "arr ?t' ! p =
           (if p < first_idx \<or> Suc j \<le> p then arr s ! p
            else if p < first_idx + (Suc j - last_idx) then arr s ! (p + diff)
            else None)"
      proof (cases "p = j")
        case True
        have "\<not> j < first_idx + (Suc j - last_idx)" using assms(1) j by arith
        with True show ?thesis using jl len sub j by simp
      next
        case False
        show ?thesis
        proof (cases "p = j - diff")
          case True
          have a: "p + diff = j" "p < first_idx + (Suc j - last_idx)" "\<not> p < first_idx"
            "\<not> Suc j \<le> p"
            using True diff j by arith+
          have "arr ?t' ! p = Some x"
            using True False jl len sub by simp
          then show ?thesis using a x(2) by (simp only: if_False if_True simp_thms)
        next
          case nd: False
          then show ?thesis using False old p len sub j assms(1) by auto
        qed
      qed
    qed (use inv in \<open>simp_all add: I_def\<close>)
    ultimately show "\<exists>t'. move_slot j (sub_size j diff) t = Inr t' \<and> I (Suc j) t'" by blast
  qed
  then show ?thesis unfolding I_def diff_def d .
qed

lemma wf_inline_nth:
  assumes "wf N s" and "vec s = None"
  shows "\<forall>p. p < sz s \<longrightarrow> arr s ! p \<noteq> None" and "\<forall>p. sz s \<le> p \<and> p < N \<longrightarrow> arr s ! p = None"
proof -
  note d = wf_inlineD [OF assms]
  show "\<forall>p. p < sz s \<longrightarrow> arr s ! p \<noteq> None"
    using d(1,2,3) by (simp add: list_all_length)
  show "\<forall>p. sz s \<le> p \<and> p < N \<longrightarrow> arr s ! p = None"
  proof (intro allI impI)
    fix p assume p: "sz s \<le> p \<and> p < N"
    then have "p - sz s < length (drop (sz s) (arr s))" using d(1) by auto
    with d(4) have "drop (sz s) (arr s) ! (p - sz s) = None"
      by (simp only: list_all_length)
    then show "arr s ! p = None" using p d(1) by simp
  qed
qed

text \<open>
  The range erase of the revision with \<^verbatim>\<open>calculate_static_size\<close>, on every inline
  container and every range \<open>first_idx < last_idx \<le> size_\<close>: the elements and the length
  are as they should be, and the returned slot is \<open>last_idx\<close>, never \<open>first_idx\<close>.
\<close>

lemma erase_range_inline:
  fixes s :: "'a small_vector"
  assumes "wf N s" and "vec s = None" and "first_idx < last_idx" and "last_idx \<le> sz s"
  shows "\<exists>s'. erase_range first_idx last_idx s = Inr (s', last_idx) \<and> wf N s'
     \<and> vec s' = None \<and> sz s' = sz s - (last_idx - first_idx)
     \<and> to_list s' = take first_idx (to_list s) @ drop last_idx (to_list s)"
proof -
  note d = wf_inlineD [OF assms(1,2)]
  note n = wf_inline_nth [OF assms(1,2)]
  define diff where "diff = last_idx - first_idx"
  have ar: "first_idx \<le> last_idx" "last_idx \<le> length (arr s)" "sz s \<le> length (arr s)"
    "diff \<le> sz s" "first_idx + (sz s - last_idx) = sz s - diff" "0 < diff"
    using assms(3,4) d(1,2) by (simp_all add: diff_def)
  have "\<forall>p. first_idx \<le> p \<and> p < last_idx \<longrightarrow> arr s ! p \<noteq> None"
    using n(1) assms(4) by simp
  from destroy_range [OF ar(1,2) this] obtain s1 where
    s1: "for_each [first_idx ..< last_idx] destroy_at s = Inr s1"
      "length (arr s1) = length (arr s)" "vec s1 = vec s" "sz s1 = sz s"
      "\<forall>p < length (arr s). arr s1 ! p =
           (if first_idx \<le> p \<and> p < last_idx then None else arr s ! p)"
    by (elim exE conjE) (rule that; assumption)
  have "last_idx \<le> sz s" and "sz s \<le> length (arr s1)"
    and "\<forall>p. last_idx \<le> p \<and> p < sz s \<longrightarrow> arr s1 ! p \<noteq> None"
    and "\<forall>p. first_idx \<le> p \<and> p < last_idx \<longrightarrow> arr s1 ! p = None"
    using assms(4) s1(2,5) ar n(1) by simp_all
  from shift_down [OF assms(3) this] obtain s2 where
    s2: "for_each [last_idx ..< sz s]
          (\<lambda>i. move_slot i (sub_size i (last_idx - first_idx))) s1 = Inr s2"
      "length (arr s2) = length (arr s1)" "vec s2 = vec s1" "sz s2 = sz s1"
      "\<forall>p < length (arr s1). arr s2 ! p =
           (if p < first_idx \<or> sz s \<le> p then arr s1 ! p
            else if p < first_idx + (sz s - last_idx) then arr s1 ! (p + (last_idx - first_idx))
            else None)"
    by (elim exE conjE) (rule that; assumption)
  have a2: "\<forall>p < N. arr s2 ! p =
           (if p < first_idx then arr s ! p
            else if p < sz s - diff then arr s ! (p + diff)
            else None)"
  proof (intro allI impI)
    fix p assume p: "p < N"
    show "arr s2 ! p = (if p < first_idx then arr s ! p
            else if p < sz s - diff then arr s ! (p + diff) else None)"
    proof (cases "p < first_idx")
      case True
      then show ?thesis using s2(5) s1(2,5) p d(1) by simp
    next
      case False
      show ?thesis
      proof (cases "p < sz s - diff")
        case True
        then have "p + diff < sz s" "last_idx \<le> p + diff" "p < sz s"
          using False ar assms(3) by (simp_all add: diff_def)
        then show ?thesis
          using False True s2(5) s1(2,5) p d(1,2) ar(5) by (simp add: diff_def)
      next
        case nd: False
        show ?thesis
        proof (cases "p < sz s")
          case True
          then show ?thesis using False nd s2(5) s1(2) p d(1) ar(5) by simp
        next
          case ge: False
          then have "arr s ! p = None" using n(2) p by simp
          moreover have "\<not> (first_idx \<le> p \<and> p < last_idx)" using ge assms(4) by simp
          ultimately show ?thesis using False nd ge s2(5) s1(2,5) p d(1) by simp
        qed
      qed
    qed
  qed
  let ?s3 = "s2\<lparr>sz := sz s - diff\<rparr>"
  have run: "erase_range first_idx last_idx s = Inr (?s3, last_idx)"
    using assms(2,3) s1(1,4) s2(1,4) ar
    by (simp add: erase_range_def Let_def diff_def)
  have len: "length (arr s2) = N" using s2(2) s1(2) d(1) by simp
  have live: "list_all (\<lambda>x. x \<noteq> None) (take (sz s - diff) (arr s2))"
    unfolding list_all_length
  proof (intro allI impI)
    fix p assume "p < length (take (sz s - diff) (arr s2))"
    then have p: "p < sz s - diff" "p < N" using len by simp_all
    then have "p < sz s" "p + diff < sz s" by simp_all
    then show "take (sz s - diff) (arr s2) ! p \<noteq> None"
      using p a2 n(1) by simp
  qed
  have dead: "list_all (\<lambda>x. x = None) (drop (sz s - diff) (arr s2))"
    unfolding list_all_length
  proof (intro allI impI)
    fix p assume "p < length (drop (sz s - diff) (arr s2))"
    then have p: "sz s - diff + p < N" using len by simp
    have "\<not> sz s - diff + p < first_idx" using ar(5) by arith
    then show "drop (sz s - diff) (arr s2) ! p = None"
      using p a2 len by simp
  qed
  have w: "wf N ?s3"
    using len live dead s2(3) s1(3) assms(2) d(2) by (simp add: wf_def)
  have tl: "to_list ?s3 = take first_idx (to_list s) @ drop last_idx (to_list s)"
  proof (rule nth_equalityI)
    show "length (to_list ?s3) = length (take first_idx (to_list s) @ drop last_idx (to_list s))"
      using length_to_list [OF w] length_to_list [OF assms(1)] ar assms(3,4) by simp
  next
    fix p assume "p < length (to_list ?s3)"
    then have p: "p < sz s - diff" using length_to_list [OF w] by simp
    then have pn: "p < N" "p < sz s" "p + diff < sz s" using d(2) by simp_all
    have l: "to_list ?s3 ! p = the (arr s2 ! p)"
      using p s2(3) s1(3) assms(2) len pn by (simp add: to_list_def)
    show "to_list ?s3 ! p = (take first_idx (to_list s) @ drop last_idx (to_list s)) ! p"
    proof (cases "p < first_idx")
      case True
      then show ?thesis
        using l a2 pn assms(2,4) d(1,2) ar length_to_list [OF assms(1)]
        by (simp add: nth_append to_list_def)
    next
      case False
      then have "last_idx + (p - first_idx) = p + diff"
        using assms(3) by (simp add: diff_def)
      then show ?thesis
        using False l a2 pn p assms(2,4) d(1,2) ar length_to_list [OF assms(1)]
        by (simp add: nth_append to_list_def)
    qed
  qed
  show ?thesis
    using run w tl s2(3) s1(3) assms(2) by (auto simp: diff_def)
qed

text \<open>
  Claim C1. In inline mode, \<^verbatim>\<open>erase(first, last)\<close> removes the elements at the indices
  \<open>[first, last)\<close>, moves the later ones \<open>last - first\<close> slots to the front in their order,
  decrements the length by \<open>last - first\<close> and returns the position of the first element
  after the removed range: erasing \<open>[1, 3)\<close> of \<open>[0, 1, 2, 3, 4, 5, 6]\<close> gives
  \<open>[0, 3, 4, 5, 6]\<close> and a position that points to 3. On this input both revisions return
  the slot \<open>last_idx = 3\<close>, which holds 5 after the call; the revision with
  \<^verbatim>\<open>calculate_static_size\<close> leaves \<open>[0, 3, 4, 5, 6]\<close> (as \<open>erase_range_inline\<close> shows for
  every input), and \<^verbatim>\<open>src/vec.hpp\<close>, whose shift loop starts at \<open>last_idx + 1\<close>, loses the
  element 3 and leaves slot 1 without an object, so that reading \<^verbatim>\<open>v[1]\<close> reads raw memory.
\<close>

theorem erase_range_returned_position:
  "SmallVector_init 8 [0, 1, 2, 3, 4, 5, 6 :: int]
     = Inr \<lparr>arr = [Some 0, Some 1, Some 2, Some 3, Some 4, Some 5, Some 6, None],
            vec = None, sz = 7, constructed = 7, destructed = 0\<rparr>
   \<and> erase_range 1 3
       \<lparr>arr = [Some 0, Some 1, Some 2, Some 3, Some 4, Some 5, Some (6 :: int), None],
        vec = None, sz = 7, constructed = 7, destructed = 0\<rparr>
     = Inr (\<lparr>arr = [Some 0, Some 3, Some 4, Some 5, Some 6, None, None, None],
             vec = None, sz = 5, constructed = 11, destructed = 6\<rparr>, 3)
   \<and> index \<lparr>arr = [Some 0, Some 3, Some 4, Some 5, Some (6 :: int), None, None, None],
             vec = None, sz = 5, constructed = 11, destructed = 6\<rparr> 3 = Inr 5
   \<and> erase_range_vec_hpp 1 3
       \<lparr>arr = [Some 0, Some 1, Some 2, Some 3, Some 4, Some 5, Some (6 :: int), None],
        vec = None, sz = 7, constructed = 7, destructed = 0\<rparr>
     = Inr (\<lparr>arr = [Some 0, None, Some 4, Some 5, Some 6, None, None, None],
             vec = None, sz = 5, constructed = 10, destructed = 5\<rparr>, 3)
   \<and> index \<lparr>arr = [Some 0, None, Some 4, Some 5, Some (6 :: int), None, None, None],
             vec = None, sz = 5, constructed = 10, destructed = 5\<rparr> 1 = Inl Undefined"
  by code_simp

end
